theory Spec2Isabelle
  imports Main "HOL-Library.Word" "HOL-Library.Sublist"
begin

unbundle bit_operations_syntax

section \<open>JavaScript strings\<close>

text \<open>
  A JavaScript string is a sequence of UTF-16 code units. The forwarder reads the raw
  message with \<^verbatim>\<open>transformToString()\<close> and works on that string, so the model works on
  lists of 16-bit words. \<open>js\<close> embeds an ASCII literal of the source.
\<close>

type_synonym jschar = "16 word"
type_synonym jsstring = "jschar list"

definition js :: "string \<Rightarrow> jsstring" where
  "js s = map (\<lambda>c. of_nat (of_char c)) s"

definition CRLF :: jsstring where
  "CRLF = [0x0D, 0x0A]"

definition LFonly :: jsstring where
  "LFonly = [0x0A]"

definition CRLFCRLF :: jsstring where
  "CRLFCRLF = [0x0D, 0x0A, 0x0D, 0x0A]"

definition LFLF :: jsstring where
  "LFLF = [0x0A, 0x0A]"

text \<open>
  The class \<^verbatim>\<open>\s\<close> of a JavaScript regular expression, which is also what
  \<^verbatim>\<open>String.prototype.trim\<close> removes: WhiteSpace and LineTerminator of ECMA-262
  (TAB, LF, VT, FF, CR, SP, NBSP, U+1680, U+2000 to U+200A, LS, PS, U+202F, U+205F,
  U+3000, BOM).
\<close>

definition isWhiteSpace :: "jschar \<Rightarrow> bool" where
  "isWhiteSpace c \<longleftrightarrow>
     c = 0x09 \<or> c = 0x0A \<or> c = 0x0B \<or> c = 0x0C \<or> c = 0x0D \<or> c = 0x20 \<or> c = 0xA0 \<or>
     c = 0x1680 \<or> (0x2000 \<le> c \<and> c \<le> 0x200A) \<or> c = 0x2028 \<or> c = 0x2029 \<or>
     c = 0x202F \<or> c = 0x205F \<or> c = 0x3000 \<or> c = 0xFEFF"

text \<open>
  Canonicalize of ECMA-262 for the flag \<^verbatim>\<open>i\<close> without \<^verbatim>\<open>u\<close>: a code unit is
  compared by its upper case, and a code unit outside ASCII never canonicalizes into
  ASCII. Every pattern of the forwarder is ASCII, so the model maps \<open>a\<close> to \<open>z\<close> onto
  \<open>A\<close> to \<open>Z\<close> and leaves every other code unit alone: a code unit outside ASCII then
  differs from every pattern character, as it does in JavaScript.
\<close>

definition canonicalize :: "jschar \<Rightarrow> jschar" where
  "canonicalize c = (if 0x61 \<le> c \<and> c \<le> 0x7A then c - 0x20 else c)"

text \<open>\<^verbatim>\<open>s.indexOf(pat)\<close>: the first index at which \<open>pat\<close> occurs; \<open>None\<close> is -1.\<close>

fun indexOf :: "'a list \<Rightarrow> 'a list \<Rightarrow> nat option" where
  "indexOf [] pat = (if pat = [] then Some 0 else None)"
| "indexOf (c # cs) pat =
     (if prefix pat (c # cs) then Some 0 else map_option Suc (indexOf cs pat))"

lemma indexOf_Some_bound:
  "indexOf s pat = Some i \<Longrightarrow> i + length pat \<le> length s"
proof (induction s arbitrary: i)
  case Nil
  then show ?case by (simp split: if_splits)
next
  case (Cons c cs)
  show ?case
  proof (cases "prefix pat (c # cs)")
    case True
    with Cons.prems have "i = 0" by simp
    with prefix_length_le [OF True] show ?thesis by simp
  next
    case False
    with Cons.prems obtain j where "indexOf cs pat = Some j" "i = Suc j" by auto
    with Cons.IH show ?thesis by simp
  qed
qed

text \<open>
  \<^verbatim>\<open>s.split(sep)\<close> with a string separator: the pieces between the successive
  occurrences of \<open>sep\<close>, scanned from the left; a string without \<open>sep\<close> is one piece
  (also the empty string). With an empty separator JavaScript splits into code units.
\<close>

function splitStr :: "'a list \<Rightarrow> 'a list \<Rightarrow> 'a list list" where
  "splitStr s sep =
     (if sep = [] then map (\<lambda>c. [c]) s
      else (case indexOf s sep of
              None \<Rightarrow> [s]
            | Some i \<Rightarrow> take i s # splitStr (drop (i + length sep) s) sep))"
  by pat_completeness auto
termination
proof (relation "measure (\<lambda>(s, sep). length s)")
  show "wf (measure (\<lambda>(s, sep). length s))" by simp
next
  fix s sep :: "'a list" and i
  assume "sep \<noteq> []" and "indexOf s sep = Some i"
  then have "i + length sep \<le> length s" and "length sep \<noteq> 0"
    by (simp_all add: indexOf_Some_bound)
  then have "length s - (i + length sep) < length s"
    by arith
  then show "((drop (i + length sep) s, sep), (s, sep)) \<in> measure (\<lambda>(s, sep). length s)"
    by simp
qed

declare splitStr.simps [simp del]

text \<open>\<^verbatim>\<open>xs.join(sep)\<close>.\<close>

fun joinStr :: "'a list list \<Rightarrow> 'a list \<Rightarrow> 'a list" where
  "joinStr [] sep = []"
| "joinStr [x] sep = x"
| "joinStr (x # y # ys) sep = x @ sep @ joinStr (y # ys) sep"

text \<open>\<^verbatim>\<open>s.trim()\<close>.\<close>

definition trim :: "jsstring \<Rightarrow> jsstring" where
  "trim s = rev (dropWhile isWhiteSpace (rev (dropWhile isWhiteSpace s)))"

section \<open>The forwarder: src/lambda/forwarder.ts\<close>

subsection \<open>The regular expressions of the source\<close>

text \<open>
  \<open>matchPrefixCI pat s\<close> matches the literal \<open>pat\<close> at the start of \<open>s\<close>, ignoring
  case, and returns what follows it: the part \<^verbatim>\<open>/^pat/i\<close> of a pattern.
\<close>

fun matchPrefixCI :: "jsstring \<Rightarrow> jsstring \<Rightarrow> jsstring option" where
  "matchPrefixCI [] s = Some s"
| "matchPrefixCI (p # ps) [] = None"
| "matchPrefixCI (p # ps) (c # cs) =
     (if canonicalize c = canonicalize p then matchPrefixCI ps cs else None)"

text \<open>
  \<^verbatim>\<open>line.match(/^Name:\s/i)\<close>, the test the source makes with \<open>Name\<close> one of
  \<^verbatim>\<open>From\<close>, \<^verbatim>\<open>Reply-To\<close>, \<^verbatim>\<open>DKIM-Signature\<close> and \<^verbatim>\<open>Return-Path\<close>: the name,
  a colon and one white space character.
\<close>

definition headerMatch :: "string \<Rightarrow> jsstring \<Rightarrow> bool" where
  "headerMatch name line =
     (case matchPrefixCI (js name @ js '':'') line of
        None \<Rightarrow> False
      | Some rest \<Rightarrow> (case rest of [] \<Rightarrow> False | c # _ \<Rightarrow> isWhiteSpace c))"

text \<open>\<^verbatim>\<open>line.match(/^\s/)\<close>.\<close>

definition startsWithWhiteSpace :: "jsstring \<Rightarrow> bool" where
  "startsWithWhiteSpace line = (case line of [] \<Rightarrow> False | c # _ \<Rightarrow> isWhiteSpace c)"

text \<open>\<^verbatim>\<open>line.replace(/^From:\s*/i, '')\<close>: the star is greedy.\<close>

definition stripFromPrefix :: "jsstring \<Rightarrow> jsstring" where
  "stripFromPrefix line =
     (case matchPrefixCI (js ''From:'') line of
        None \<Rightarrow> line
      | Some rest \<Rightarrow> dropWhile isWhiteSpace rest)"

text \<open>
  \<^verbatim>\<open>fromValue.match(/<([^>]+)>/)\<close>, group 1 of the leftmost match: at the first
  \<open><\<close> that is followed by one or more code units other than \<open>>\<close> and then by
  \<open>>\<close>. The run matched by \<^verbatim>\<open>[^>]+\<close> ends at the first \<open>>\<close>, so backtracking
  finds nothing a shorter run would match.
\<close>

fun matchAngle :: "jsstring \<Rightarrow> jsstring option" where
  "matchAngle [] = None"
| "matchAngle (c # cs) =
     (if c = 0x3C \<and> takeWhile (\<lambda>x. x \<noteq> 0x3E) cs \<noteq> [] \<and> dropWhile (\<lambda>x. x \<noteq> 0x3E) cs \<noteq> []
      then Some (takeWhile (\<lambda>x. x \<noteq> 0x3E) cs)
      else matchAngle cs)"

definition extractEmail :: "jsstring \<Rightarrow> jsstring" where
  "extractEmail fromValue =
     (case matchAngle fromValue of
        Some m \<Rightarrow> m
      | None \<Rightarrow> trim fromValue)"

text \<open>
  \<^verbatim>\<open>fromValue.match(/^"?([^"<]+)"?\s*</)\<close>, group 1. A leading quote must be
  consumed (the group cannot start with it); the group is the longest run of code units
  other than \<open>"\<close> and \<open><\<close>, which must be non-empty; after it comes \<open><\<close>, or a quote,
  white space and \<open><\<close>. A shorter group matches only where the longest one does, and
  the longest is tried first.
\<close>

definition matchName :: "jsstring \<Rightarrow> jsstring option" where
  "matchName fromValue =
     (let s = (case fromValue of [] \<Rightarrow> [] | c # cs \<Rightarrow> if c = 0x22 then cs else c # cs);
          run = takeWhile (\<lambda>x. x \<noteq> 0x22 \<and> x \<noteq> 0x3C) s;
          rest = dropWhile (\<lambda>x. x \<noteq> 0x22 \<and> x \<noteq> 0x3C) s
      in if run = [] then None
         else (case rest of
                 [] \<Rightarrow> None
               | d # ds \<Rightarrow>
                   if d = 0x3C then Some run
                   else (case dropWhile isWhiteSpace ds of
                           [] \<Rightarrow> None
                         | e # _ \<Rightarrow> if e = 0x3C then Some run else None)))"

definition extractName :: "jsstring \<Rightarrow> jsstring" where
  "extractName fromValue =
     (case matchName fromValue of
        Some m \<Rightarrow> trim m
      | None \<Rightarrow> [])"

subsection \<open>rewriteWithSplit and rewriteEmail\<close>

text \<open>The marker the second pass tests for and the final filter removes.\<close>

definition SKIP :: jsstring where
  "SKIP = js ''__SKIP__''"

text \<open>
  The body of the first loop: the state is \<open>(originalFrom, hasReplyTo)\<close>. Every line
  that matches \<^verbatim>\<open>/^From:\s/i\<close> assigns \<open>originalFrom\<close>.
\<close>

definition firstPassStep :: "jsstring \<times> bool \<Rightarrow> jsstring \<Rightarrow> jsstring \<times> bool" where
  "firstPassStep st line =
     (let originalFrom = (if headerMatch ''From'' line then trim (stripFromPrefix line) else fst st);
          hasReplyTo = (if headerMatch ''Reply-To'' line then True else snd st)
      in (originalFrom, hasReplyTo))"

definition firstPass :: "jsstring list \<Rightarrow> jsstring \<times> bool" where
  "firstPass lines = foldl firstPassStep ([], False) lines"

text \<open>The two template strings the second loop pushes.\<close>

definition fromHeader :: "jsstring \<Rightarrow> jsstring \<Rightarrow> jsstring \<Rightarrow> jsstring \<Rightarrow> jsstring" where
  "fromHeader DOMAIN forwardFrom originalName originalEmail =
     (let displayName =
            (if originalName \<noteq> [] then originalName @ js '' via '' @ DOMAIN
             else originalEmail @ js '' via '' @ DOMAIN)
      in js ''From: '' @ [0x22] @ displayName @ [0x22] @ js '' <'' @ forwardFrom @ js ''>'')"

definition replyToHeader :: "jsstring \<Rightarrow> jsstring" where
  "replyToHeader originalFrom = js ''Reply-To: '' @ originalFrom"

text \<open>
  The body of the second loop: the state is \<open>newLines\<close>. No branch pushes the marker
  \<open>SKIP\<close>: the branch for \<^verbatim>\<open>DKIM-Signature\<close> only continues.
\<close>

definition secondPassStep ::
  "jsstring \<Rightarrow> jsstring \<Rightarrow> jsstring \<Rightarrow> bool \<Rightarrow> jsstring \<Rightarrow> jsstring \<Rightarrow>
   jsstring list \<Rightarrow> jsstring \<Rightarrow> jsstring list" where
  "secondPassStep DOMAIN forwardFrom originalFrom hasReplyTo originalEmail originalName newLines line =
     (if headerMatch ''DKIM-Signature'' line then newLines
      else if newLines \<noteq> [] \<and> last newLines = SKIP \<and> startsWithWhiteSpace line then newLines
      else if headerMatch ''From'' line then
        (newLines @ [fromHeader DOMAIN forwardFrom originalName originalEmail])
          @ (if \<not> hasReplyTo \<and> originalEmail \<noteq> [] then [replyToHeader originalFrom] else [])
      else if headerMatch ''Return-Path'' line then newLines
      else newLines @ [line])"

definition rewriteWithSplit :: "jsstring \<Rightarrow> jsstring \<Rightarrow> nat \<Rightarrow> jsstring \<Rightarrow> jsstring \<Rightarrow> jsstring" where
  "rewriteWithSplit DOMAIN raw splitIndex separator forwardFrom =
     (let headerSection = take splitIndex raw;
          body = drop splitIndex raw;
          lineBreak = (if separator = CRLFCRLF then CRLF else LFonly);
          lines = splitStr headerSection lineBreak;
          (originalFrom, hasReplyTo) = firstPass lines;
          originalEmail = extractEmail originalFrom;
          originalName = extractName originalFrom;
          newLines = foldl (secondPassStep DOMAIN forwardFrom originalFrom hasReplyTo
                              originalEmail originalName) [] lines;
          filtered = filter (\<lambda>l. l \<noteq> SKIP) newLines
      in joinStr filtered lineBreak @ body)"

text \<open>
  \<open>DOMAIN\<close> is the module constant read from the environment; the third argument of
  the source, \<open>_destination\<close>, is unused.
\<close>

definition rewriteEmail :: "jsstring \<Rightarrow> jsstring \<Rightarrow> jsstring \<Rightarrow> jsstring \<Rightarrow> jsstring" where
  "rewriteEmail DOMAIN raw forwardFrom destination =
     (case indexOf raw CRLFCRLF of
        None \<Rightarrow>
          (case indexOf raw LFLF of
             None \<Rightarrow> raw
           | Some altIndex \<Rightarrow> rewriteWithSplit DOMAIN raw altIndex LFLF forwardFrom)
      | Some headerEndIndex \<Rightarrow> rewriteWithSplit DOMAIN raw headerEndIndex CRLFCRLF forwardFrom)"

subsection \<open>The parts of rewriteWithSplit that the statements name\<close>

text \<open>
  The header/body split that \<open>rewriteEmail\<close> and \<open>rewriteWithSplit\<close> make together:
  the header section before the first boundary, the body after it and the line break
  of the boundary; \<open>None\<close> when the message has no boundary.
\<close>

definition tokenize :: "jsstring \<Rightarrow> (jsstring \<times> jsstring \<times> jsstring) option" where
  "tokenize raw =
     (case indexOf raw CRLFCRLF of
        Some i \<Rightarrow> Some (take i raw, drop (i + 4) raw, CRLF)
      | None \<Rightarrow>
          (case indexOf raw LFLF of
             Some j \<Rightarrow> Some (take j raw, drop (j + 2) raw, LFonly)
           | None \<Rightarrow> None))"

text \<open>
  The value of \<open>filtered\<close> in \<open>rewriteWithSplit\<close>, as a function of the header lines
  and of what the first loop found; and the same with the first loop run on the lines.
\<close>

definition emitLines :: "jsstring \<Rightarrow> jsstring \<Rightarrow> jsstring \<Rightarrow> bool \<Rightarrow> jsstring list \<Rightarrow> jsstring list" where
  "emitLines DOMAIN forwardFrom originalFrom hasReplyTo lines =
     filter (\<lambda>l. l \<noteq> SKIP)
       (foldl (secondPassStep DOMAIN forwardFrom originalFrom hasReplyTo
                 (extractEmail originalFrom) (extractName originalFrom)) [] lines)"

definition rewriteLines :: "jsstring \<Rightarrow> jsstring \<Rightarrow> jsstring list \<Rightarrow> jsstring list" where
  "rewriteLines DOMAIN forwardFrom lines =
     emitLines DOMAIN forwardFrom (fst (firstPass lines)) (snd (firstPass lines)) lines"

text \<open>The test of the second loop on \<open>newLines\<close>: its last element is the marker.\<close>

definition skipLast :: "jsstring list \<Rightarrow> bool" where
  "skipLast newLines \<longleftrightarrow> newLines \<noteq> [] \<and> last newLines = SKIP"

text \<open>
  A line that starts with a header name and a colon, ignoring case; and such a line
  with no white space character right after the colon (nothing at all, or another
  character), which \<^verbatim>\<open>/^Name:\s/i\<close> does not match.
\<close>

definition hasName :: "string \<Rightarrow> jsstring \<Rightarrow> bool" where
  "hasName name line \<longleftrightarrow> matchPrefixCI (js name @ js '':'') line \<noteq> None"

definition nameColonNoSpace :: "string \<Rightarrow> jsstring \<Rightarrow> bool" where
  "nameColonNoSpace name line =
     (case matchPrefixCI (js name @ js '':'') line of
        None \<Rightarrow> False
      | Some rest \<Rightarrow> (case rest of [] \<Rightarrow> True | c # _ \<Rightarrow> \<not> isWhiteSpace c))"

text \<open>The four header names the source has a pattern for.\<close>

definition headerNames :: "string set" where
  "headerNames = {''From'', ''Reply-To'', ''DKIM-Signature'', ''Return-Path''}"

text \<open>
  A string without CR and without LF; and a header line that is not empty and has
  neither: what a line of a header section is when the section uses the line break of
  the boundary and nothing else.
\<close>

definition noLineBreak :: "jsstring \<Rightarrow> bool" where
  "noLineBreak s \<longleftrightarrow> 0x0D \<notin> set s \<and> 0x0A \<notin> set s"

definition plainLine :: "jsstring \<Rightarrow> bool" where
  "plainLine l \<longleftrightarrow> l \<noteq> [] \<and> noLineBreak l"

section \<open>The SMTP credentials resource: src/lambda/smtp-credentials.ts\<close>

subsection \<open>SHA-256, HMAC and base64\<close>

text \<open>
  The source calls Node's \<^verbatim>\<open>createHmac('sha256', key).update(data).digest()\<close> and
  \<^verbatim>\<open>Buffer.toString('base64')\<close>. These library functions are written out here from
  their standards: SHA-256 from FIPS 180-4, HMAC from RFC 2104, base64 from RFC 4648.
  A byte is an 8-bit word; a string of the source reaches the hash as its UTF-8 bytes,
  and a \<open>string\<close> of the model is that byte sequence.
\<close>

type_synonym byte = "8 word"

definition utf8 :: "string \<Rightarrow> byte list" where
  "utf8 s = map (\<lambda>c. of_nat (of_char c)) s"

text \<open>The functions and constants of FIPS 180-4, sections 4.1.2 and 4.2.2.\<close>

definition Ch :: "32 word \<Rightarrow> 32 word \<Rightarrow> 32 word \<Rightarrow> 32 word" where
  "Ch x y z = (x AND y) XOR (NOT x AND z)"

definition Maj :: "32 word \<Rightarrow> 32 word \<Rightarrow> 32 word \<Rightarrow> 32 word" where
  "Maj x y z = (x AND y) XOR (x AND z) XOR (y AND z)"

definition bsig0 :: "32 word \<Rightarrow> 32 word" where
  "bsig0 x = word_rotr 2 x XOR word_rotr 13 x XOR word_rotr 22 x"

definition bsig1 :: "32 word \<Rightarrow> 32 word" where
  "bsig1 x = word_rotr 6 x XOR word_rotr 11 x XOR word_rotr 25 x"

definition ssig0 :: "32 word \<Rightarrow> 32 word" where
  "ssig0 x = word_rotr 7 x XOR word_rotr 18 x XOR drop_bit 3 x"

definition ssig1 :: "32 word \<Rightarrow> 32 word" where
  "ssig1 x = word_rotr 17 x XOR word_rotr 19 x XOR drop_bit 10 x"

definition K256 :: "32 word list" where
  "K256 =
    [0x428A2F98, 0x71374491, 0xB5C0FBCF, 0xE9B5DBA5, 0x3956C25B, 0x59F111F1, 0x923F82A4, 0xAB1C5ED5,
     0xD807AA98, 0x12835B01, 0x243185BE, 0x550C7DC3, 0x72BE5D74, 0x80DEB1FE, 0x9BDC06A7, 0xC19BF174,
     0xE49B69C1, 0xEFBE4786, 0x0FC19DC6, 0x240CA1CC, 0x2DE92C6F, 0x4A7484AA, 0x5CB0A9DC, 0x76F988DA,
     0x983E5152, 0xA831C66D, 0xB00327C8, 0xBF597FC7, 0xC6E00BF3, 0xD5A79147, 0x06CA6351, 0x14292967,
     0x27B70A85, 0x2E1B2138, 0x4D2C6DFC, 0x53380D13, 0x650A7354, 0x766A0ABB, 0x81C2C92E, 0x92722C85,
     0xA2BFE8A1, 0xA81A664B, 0xC24B8B70, 0xC76C51A3, 0xD192E819, 0xD6990624, 0xF40E3585, 0x106AA070,
     0x19A4C116, 0x1E376C08, 0x2748774C, 0x34B0BCB5, 0x391C0CB3, 0x4ED8AA4A, 0x5B9CCA4F, 0x682E6FF3,
     0x748F82EE, 0x78A5636F, 0x84C87814, 0x8CC70208, 0x90BEFFFA, 0xA4506CEB, 0xBEF9A3F7, 0xC67178F2]"

text \<open>The eight working variables, and the initial hash value of section 5.3.3.\<close>

type_synonym hash = "32 word \<times> 32 word \<times> 32 word \<times> 32 word \<times> 32 word \<times> 32 word \<times> 32 word \<times> 32 word"

definition H256 :: hash where
  "H256 = (0x6A09E667, 0xBB67AE85, 0x3C6EF372, 0xA54FF53A, 0x510E527F, 0x9B05688C, 0x1F83D9AB, 0x5BE0CD19)"

text \<open>
  Padding (section 5.1.1): the byte 0x80, zero bytes up to 56 modulo 64, and the length
  of the message in bits as a 64-bit big-endian number.
\<close>

definition be64 :: "nat \<Rightarrow> byte list" where
  "be64 n = map (\<lambda>i. ucast (drop_bit (8 * (7 - i)) (of_nat n :: 64 word))) [0..<8]"

definition pad :: "byte list \<Rightarrow> byte list" where
  "pad msg = msg @ [0x80] @ replicate ((119 - length msg mod 64) mod 64) 0 @ be64 (8 * length msg)"

definition be32 :: "byte \<Rightarrow> byte \<Rightarrow> byte \<Rightarrow> byte \<Rightarrow> 32 word" where
  "be32 a b c d = push_bit 24 (ucast a) OR push_bit 16 (ucast b) OR push_bit 8 (ucast c) OR ucast d"

definition bytes32 :: "32 word \<Rightarrow> byte list" where
  "bytes32 w = [ucast (drop_bit 24 w), ucast (drop_bit 16 w), ucast (drop_bit 8 w), ucast w]"

text \<open>
  The sixteen words of a 64-byte block, the message schedule of 64 words, one round,
  and the compression of one block into the hash (section 6.2.2). Every block that
  \<open>sha256\<close> passes on has 64 bytes, so each index is in range.
\<close>

definition blockWords :: "byte list \<Rightarrow> 32 word list" where
  "blockWords block =
     map (\<lambda>i. be32 (block ! (4 * i)) (block ! (4 * i + 1)) (block ! (4 * i + 2)) (block ! (4 * i + 3)))
       [0..<16]"

definition schedule :: "32 word list \<Rightarrow> 32 word list" where
  "schedule w16 =
     fold (\<lambda>t w. w @ [ssig1 (w ! (t - 2)) + w ! (t - 7) + ssig0 (w ! (t - 15)) + w ! (t - 16)])
       [16..<64] w16"

definition round256 :: "32 word list \<Rightarrow> nat \<Rightarrow> hash \<Rightarrow> hash" where
  "round256 w t s =
     (case s of (a, b, c, d, e, f, g, h) \<Rightarrow>
        (let T1 = h + bsig1 e + Ch e f g + K256 ! t + w ! t;
             T2 = bsig0 a + Maj a b c
         in (T1 + T2, a, b, c, d + T1, e, f, g)))"

definition compress :: "byte list \<Rightarrow> hash \<Rightarrow> hash" where
  "compress block s =
     (case s of (a, b, c, d, e, f, g, h) \<Rightarrow>
        (case fold (round256 (schedule (blockWords block))) [0..<64] s of
           (a', b', c', d', e', f', g', h') \<Rightarrow>
             (a + a', b + b', c + c', d + d', e + e', f + f', g + g', h + h')))"

fun blocks :: "nat \<Rightarrow> byte list \<Rightarrow> byte list list" where
  "blocks 0 bs = []"
| "blocks (Suc n) bs = take 64 bs # blocks n (drop 64 bs)"

definition sha256 :: "byte list \<Rightarrow> byte list" where
  "sha256 msg =
     (case fold compress (blocks (length (pad msg) div 64) (pad msg)) H256 of
        (a, b, c, d, e, f, g, h) \<Rightarrow>
          bytes32 a @ bytes32 b @ bytes32 c @ bytes32 d @ bytes32 e @ bytes32 f @ bytes32 g @ bytes32 h)"

text \<open>
  HMAC of RFC 2104 with SHA-256: a key longer than the block of 64 bytes is hashed
  first, the key is filled with zero bytes to 64, and the inner and outer pads are
  0x36 and 0x5c.
\<close>

definition hmacSha256 :: "byte list \<Rightarrow> byte list \<Rightarrow> byte list" where
  "hmacSha256 key msg =
     (let k0 = (if length key > 64 then sha256 key else key);
          k = k0 @ replicate (64 - length k0) 0
      in sha256 (map (\<lambda>b. b XOR 0x5c) k @ sha256 (map (\<lambda>b. b XOR 0x36) k @ msg)))"

text \<open>
  Base64 of RFC 4648 with padding, as \<^verbatim>\<open>toString('base64')\<close> writes it, and its strict
  decoder.
\<close>

definition base64Alphabet :: string where
  "base64Alphabet = ''ABCDEFGHIJKLMNOPQRSTUVWXYZabcdefghijklmnopqrstuvwxyz0123456789+/''"

definition base64Char :: "nat \<Rightarrow> char" where
  "base64Char n = base64Alphabet ! n"

fun base64 :: "byte list \<Rightarrow> string" where
  "base64 [] = []"
| "base64 [a] =
     [base64Char (unat a div 4), base64Char (unat a mod 4 * 16), CHR ''='', CHR ''='']"
| "base64 [a, b] =
     [base64Char (unat a div 4), base64Char (unat a mod 4 * 16 + unat b div 16),
      base64Char (unat b mod 16 * 4), CHR ''='']"
| "base64 (a # b # c # rest) =
     [base64Char (unat a div 4), base64Char (unat a mod 4 * 16 + unat b div 16),
      base64Char (unat b mod 16 * 4 + unat c div 64), base64Char (unat c mod 64)]
     @ base64 rest"

definition base64Value :: "char \<Rightarrow> nat option" where
  "base64Value c = map_of (zip base64Alphabet [0..<64]) c"

fun base64Decode :: "string \<Rightarrow> byte list option" where
  "base64Decode [] = Some []"
| "base64Decode (c1 # c2 # c3 # c4 # rest) =
     (case (base64Value c1, base64Value c2) of
        (Some v1, Some v2) \<Rightarrow>
          (if c3 = CHR ''='' then
             (if c4 = CHR ''='' \<and> rest = [] \<and> v2 mod 16 = 0 then Some [of_nat (v1 * 4 + v2 div 16)]
              else None)
           else
             (case base64Value c3 of
                None \<Rightarrow> None
              | Some v3 \<Rightarrow>
                  (if c4 = CHR ''='' then
                     (if rest = [] \<and> v3 mod 4 = 0
                      then Some [of_nat (v1 * 4 + v2 div 16), of_nat (v2 mod 16 * 16 + v3 div 4)]
                      else None)
                   else
                     (case base64Value c4 of
                        None \<Rightarrow> None
                      | Some v4 \<Rightarrow>
                          map_option
                            (\<lambda>bs. of_nat (v1 * 4 + v2 div 16) # of_nat (v2 mod 16 * 16 + v3 div 4)
                                   # of_nat (v3 mod 4 * 64 + v4) # bs)
                            (base64Decode rest)))))
      | _ \<Rightarrow> None)"
| "base64Decode _ = None"

subsection \<open>calculateSmtpPassword\<close>

text \<open>\<open>VERSION\<close> is the single byte 0x04 and \<open>MESSAGE\<close> is \<^verbatim>\<open>SendRawEmail\<close>.\<close>

definition calculateSmtpPassword :: "string \<Rightarrow> string \<Rightarrow> string" where
  "calculateSmtpPassword secretKey region =
     (let kDate = hmacSha256 (utf8 (''AWS4'' @ secretKey)) (utf8 ''11111111'');
          kRegion = hmacSha256 kDate (utf8 region);
          kService = hmacSha256 kRegion (utf8 ''ses'');
          kTerminal = hmacSha256 kService (utf8 ''aws4_request'');
          kMessage = hmacSha256 kTerminal (utf8 ''SendRawEmail'')
      in base64 ([0x04] @ kMessage))"

text \<open>
  The chain as the specification words it: starting from the key \<^verbatim>\<open>AWS4\<close> followed by
  the secret key, one HMAC-SHA256 step for each of the five data strings, the digest of a
  step being the key of the next.
\<close>

definition kChain :: "string \<Rightarrow> string \<Rightarrow> byte list" where
  "kChain secretKey region =
     fold (\<lambda>data key. hmacSha256 key (utf8 data))
       [''11111111'', region, ''ses'', ''aws4_request'', ''SendRawEmail'']
       (utf8 (''AWS4'' @ secretKey))"

subsection \<open>The handler\<close>

text \<open>
  \<^verbatim>\<open>JSON.stringify\<close> of a string (QuoteJSONString of ECMA-262), on the UTF-8 bytes: the
  quote, the backslash and the control characters below 0x20 are escaped, every other
  byte is kept.
\<close>

definition hexDigit :: "nat \<Rightarrow> char" where
  "hexDigit n = ''0123456789abcdef'' ! n"

definition jsonEscape :: "char \<Rightarrow> string" where
  "jsonEscape c =
     (if c = CHR 0x22 then [CHR 0x5C, CHR 0x22]
      else if c = CHR 0x5C then [CHR 0x5C, CHR 0x5C]
      else if c = CHR 0x08 then [CHR 0x5C, CHR ''b'']
      else if c = CHR 0x0C then [CHR 0x5C, CHR ''f'']
      else if c = CHR 0x0A then [CHR 0x5C, CHR ''n'']
      else if c = CHR 0x0D then [CHR 0x5C, CHR ''r'']
      else if c = CHR 0x09 then [CHR 0x5C, CHR ''t'']
      else if (of_char c :: nat) < 0x20
        then [CHR 0x5C, CHR ''u'', CHR ''0'', CHR ''0'',
              hexDigit (of_char c div 16), hexDigit (of_char c mod 16)]
      else [c])"

definition jsonString :: "string \<Rightarrow> string" where
  "jsonString s = [CHR 0x22] @ concat (map jsonEscape s) @ [CHR 0x22]"

datatype requestType = Create | Update | Delete

record resourceProperties =
  SecretName :: string
  AccessKeyId :: string
  SecretAccessKey :: string
  Region :: string
  SmtpEndpoint :: string
  SmtpPort :: string

record event =
  RequestType :: requestType
  ResourceProperties :: resourceProperties

text \<open>
  The three commands the handler sends to the Secrets Manager client, with the fields
  it sets (for \<open>DeleteSecretCommand\<close>: \<open>SecretId\<close> and \<open>ForceDeleteWithoutRecovery\<close>),
  and what a command can throw: \<open>ResourceNotFoundException\<close>, which the handler
  tests for with \<^verbatim>\<open>instanceof\<close>, or anything else.
\<close>

datatype command =
    PutSecretValueCommand string string
  | CreateSecretCommand string string string
  | DeleteSecretCommand string bool

datatype smError = ResourceNotFoundException | OtherException string

definition physicalId :: "event \<Rightarrow> string" where
  "physicalId event = ''smtp-creds-'' @ SecretName (ResourceProperties event)"

definition secretValue :: "event \<Rightarrow> string" where
  "secretValue event =
     (let props = ResourceProperties event;
          smtpPassword = calculateSmtpPassword (SecretAccessKey props) (Region props)
      in ''{'' @ jsonString ''smtpEndpoint'' @ '':'' @ jsonString (SmtpEndpoint props)
         @ '','' @ jsonString ''smtpPort'' @ '':'' @ jsonString (SmtpPort props)
         @ '','' @ jsonString ''smtpUsername'' @ '':'' @ jsonString (AccessKeyId props)
         @ '','' @ jsonString ''smtpPassword'' @ '':'' @ jsonString smtpPassword
         @ ''}'')"

definition secretDescription :: "event \<Rightarrow> string" where
  "secretDescription event =
     ''Ready-to-use SES SMTP credentials. smtpUsername + smtpPassword for ''
     @ SmtpEndpoint (ResourceProperties event) @ '':'' @ SmtpPort (ResourceProperties event)"

text \<open>
  The handler, over any client: \<open>send cmd st\<close> is \<^verbatim>\<open>await sm.send(cmd)\<close> in the state
  \<open>st\<close> of the world, and returns what the command threw (\<open>Inl\<close>) or that it
  succeeded, with the state after it. The handler returns what it throws (\<open>Inl\<close>) or
  the \<open>PhysicalResourceId\<close> of its result.
\<close>

definition handler ::
  "(command \<Rightarrow> 'st \<Rightarrow> (smError + unit) \<times> 'st) \<Rightarrow> event \<Rightarrow> 'st \<Rightarrow> (smError + string) \<times> 'st" where
  "handler send event st =
     (if RequestType event = Delete then
        (case send (DeleteSecretCommand (SecretName (ResourceProperties event)) True) st of
           (Inl e, st') \<Rightarrow>
             if e \<noteq> ResourceNotFoundException then (Inl e, st') else (Inr (physicalId event), st')
         | (Inr u, st') \<Rightarrow> (Inr (physicalId event), st'))
      else
        (case send (PutSecretValueCommand (SecretName (ResourceProperties event)) (secretValue event)) st of
           (Inr u, st') \<Rightarrow> (Inr (physicalId event), st')
         | (Inl e, st') \<Rightarrow>
             if e = ResourceNotFoundException then
               (case send (CreateSecretCommand (SecretName (ResourceProperties event))
                             (secretValue event) (secretDescription event)) st' of
                  (Inr u, st'') \<Rightarrow> (Inr (physicalId event), st'')
                | (Inl e', st'') \<Rightarrow> (Inl e', st''))
             else (Inl e, st')))"

text \<open>
  Modelled from the spec: the secret store itself (AWS Secrets Manager, behind the SDK
  client) is not code of this repository. A secret record is absent or present with a
  value; putting a value on an absent name, or deleting one, reports not-found and
  changes nothing; creating adds the record. The store also keeps the commands it
  received, in order.
\<close>

record secretStore =
  secrets :: "string \<rightharpoonup> string"
  received :: "command list"

definition storeSend :: "command \<Rightarrow> secretStore \<Rightarrow> (smError + unit) \<times> secretStore" where
  "storeSend cmd st =
     (let st1 = st\<lparr>received := received st @ [cmd]\<rparr>
      in case cmd of
           PutSecretValueCommand name v \<Rightarrow>
             (if secrets st name = None then (Inl ResourceNotFoundException, st1)
              else (Inr (), st1\<lparr>secrets := (secrets st)(name \<mapsto> v)\<rparr>))
         | CreateSecretCommand name v description \<Rightarrow>
             (if secrets st name = None then (Inr (), st1\<lparr>secrets := (secrets st)(name \<mapsto> v)\<rparr>)
              else (Inl (OtherException ''ResourceExistsException''), st1))
         | DeleteSecretCommand name force \<Rightarrow>
             (if secrets st name = None then (Inl ResourceNotFoundException, st1)
              else (Inr (), st1\<lparr>secrets := (secrets st)(name := None)\<rparr>)))"

text \<open>The resource properties used in the examples.\<close>

definition exampleProperties :: resourceProperties where
  "exampleProperties =
     \<lparr>SecretName = ''EmailForwarding/smtp-credentials'', AccessKeyId = ''AKIAEXAMPLE'',
      SecretAccessKey = ''wJalrXUtnFEMI/K7MDENG/bPxRfiCYEXAMPLEKEY'', Region = ''us-east-1'',
      SmtpEndpoint = ''email-smtp.us-east-1.amazonaws.com'', SmtpPort = ''587''\<rparr>"

section \<open>Facts about the string operations\<close>

lemma indexOf_None_iff: "indexOf s pat = None \<longleftrightarrow> \<not> sublist pat s"
  by (induction s) (auto simp: sublist_Cons_right)

lemma indexOf_Some_prefix:
  "indexOf s pat = Some i \<Longrightarrow> prefix pat (drop i s)"
proof (induction s arbitrary: i)
  case Nil
  then show ?case by (simp split: if_splits)
next
  case (Cons c cs)
  then show ?case by (cases "prefix pat (c # cs)") auto
qed

lemma indexOf_Some_first:
  "indexOf s pat = Some i \<Longrightarrow> j < i \<Longrightarrow> \<not> prefix pat (drop j s)"
proof (induction s arbitrary: i j)
  case Nil
  then show ?case by (simp split: if_splits)
next
  case (Cons c cs)
  show ?case
  proof (cases "prefix pat (c # cs)")
    case True
    with Cons.prems show ?thesis by simp
  next
    case False
    with Cons.prems obtain k where k: "indexOf cs pat = Some k" "i = Suc k" by auto
    show ?thesis
    proof (cases j)
      case 0
      with False show ?thesis by simp
    next
      case (Suc j')
      with Cons.prems(2) k have "j' < k" by simp
      from Cons.IH [OF k(1) this] Suc show ?thesis by simp
    qed
  qed
qed

lemma indexOf_Some_drop:
  assumes "indexOf s pat = Some i"
  shows "drop i s = pat @ drop (i + length pat) s"
proof -
  from assms have "prefix pat (drop i s)" by (rule indexOf_Some_prefix)
  then obtain r where r: "drop i s = pat @ r" by (auto simp: prefix_def)
  then have "drop (length pat) (drop i s) = r" by simp
  then have "r = drop (i + length pat) s" by (simp add: add.commute)
  with r show ?thesis by simp
qed

text \<open>
  The converse of the two facts above: the first index at which the pattern is a prefix
  of what remains is the value of \<open>indexOf\<close>.
\<close>

lemma indexOf_SomeI:
  "prefix pat (drop i s) \<Longrightarrow> i \<le> length s \<Longrightarrow> (\<forall>j<i. \<not> prefix pat (drop j s))
     \<Longrightarrow> indexOf s pat = Some i"
proof (induction s arbitrary: i)
  case Nil
  then show ?case by simp
next
  case (Cons c cs)
  show ?case
  proof (cases "prefix pat (c # cs)")
    case True
    with Cons.prems(3) have "i = 0" by (cases i) auto
    with True show ?thesis by simp
  next
    case False
    with Cons.prems(1) obtain k where k: "i = Suc k" by (cases i) auto
    from Cons.prems(3) k have "\<forall>j<k. \<not> prefix pat (drop j cs)" by auto
    with Cons.IH [of k] Cons.prems(1,2) k have "indexOf cs pat = Some k" by simp
    with False k show ?thesis by simp
  qed
qed

lemma sublist_skip:
  "c \<notin> set s \<Longrightarrow> sublist (c # p) (s @ t) \<Longrightarrow> sublist (c # p) t"
  by (induction s) (auto simp: sublist_Cons_right)

text \<open>
  Lines that are not empty and do not contain the first character of the line break,
  joined by a line break whose first character occurs in it once: the doubled line
  break does not occur before the end of the joined text, whatever follows.
\<close>

lemma joinStr_Cons: "joinStr (x # xs) sep = x @ (if xs = [] then [] else sep @ joinStr xs sep)"
  by (cases xs) simp_all

lemma joinStr_no_boundary:
  assumes "c \<notin> set cs"
    and "\<forall>l \<in> set L. l \<noteq> [] \<and> c \<notin> set l"
    and "j < length (joinStr L (c # cs))"
  shows "\<not> prefix ((c # cs) @ (c # cs)) (drop j (joinStr L (c # cs) @ (c # cs) @ rest))"
  using assms(2,3)
proof (induction L "c # cs" arbitrary: j rule: joinStr.induct)
  case 1
  then show ?case by simp
next
  case (2 x)
  then have "j < length x" and "c \<notin> set x" by simp_all
  then have "drop j x \<noteq> []" and "hd (drop j x) \<noteq> c"
    by (auto simp: hd_drop_conv_nth)
  then obtain d ds where "drop j x = d # ds" "d \<noteq> c" by (cases "drop j x") auto
  with \<open>j < length x\<close> show ?case by simp
next
  case (3 x y ys)
  let ?J = "joinStr (y # ys) (c # cs)"
  from 3(2) have y: "y \<noteq> []" "c \<notin> set y" and x: "c \<notin> set x" by simp_all
  then obtain y0 y' where yy: "y = y0 # y'" "y0 \<noteq> c" by (cases y) auto
  have J: "?J = y0 # (y' @ (if ys = [] then [] else (c # cs) @ joinStr ys (c # cs)))"
    by (simp add: joinStr_Cons yy)
  consider "j < length x" | "j = length x" | "length x < j" "j < length x + Suc (length cs)"
    | "length x + Suc (length cs) \<le> j" by linarith
  then show ?case
  proof cases
    case 1
    with x have "drop j x \<noteq> []" and "hd (drop j x) \<noteq> c"
      by (auto simp: hd_drop_conv_nth)
    then obtain d ds where "drop j x = d # ds" "d \<noteq> c" by (cases "drop j x") auto
    with 1 show ?thesis by simp
  next
    case 2
    from yy(2) have "c \<noteq> y0" by simp
    with 2 show ?thesis by (simp add: J)
  next
    case 3
    define k where "k = j - length x - 1"
    from 3 have k: "j - length x = Suc k" "k < length cs" by (simp_all add: k_def)
    then have "drop k cs \<noteq> []" by simp
    then obtain d ds where d: "drop k cs = d # ds" by (cases "drop k cs") auto
    then have "d \<in> set cs" by (metis in_set_dropD list.set_intros(1))
    with assms(1) have "d \<noteq> c" by auto
    with 3 k d show ?thesis by simp
  next
    case 4
    define k where "k = j - (length x + Suc (length cs))"
    from 4 3(3) have "k < length ?J" by (simp add: k_def)
    with 3(1) 3(2) have "\<not> prefix ((c # cs) @ (c # cs)) (drop k (?J @ (c # cs) @ rest))"
      by simp
    moreover have "drop j (joinStr (x # y # ys) (c # cs) @ (c # cs) @ rest)
        = drop k (?J @ (c # cs) @ rest)"
    proof -
      from 4 have j: "j = length (x @ c # cs) + k" by (simp add: k_def)
      have "joinStr (x # y # ys) (c # cs) @ (c # cs) @ rest = (x @ c # cs) @ (?J @ (c # cs) @ rest)"
        by simp
      then show ?thesis unfolding j by (simp only: drop_append length_append) simp
    qed
    ultimately show ?thesis by simp
  qed
qed

lemma set_joinStr: "set (joinStr L sep) \<subseteq> \<Union> (set ` set L) \<union> set sep"
  by (induction L sep rule: joinStr.induct) auto

lemma set_trim: "set (trim s) \<subseteq> set s"
proof -
  have "set (trim s) \<subseteq> set (dropWhile isWhiteSpace s)"
    unfolding trim_def by (auto dest: set_dropWhileD)
  then show ?thesis by (auto dest: set_dropWhileD)
qed

lemma length_separators: "length CRLFCRLF = 4" "length LFLF = 2"
  by (simp_all add: CRLFCRLF_def LFLF_def)

lemma separators_double: "CRLFCRLF = CRLF @ CRLF" "LFLF = LFonly @ LFonly"
  by (simp_all add: CRLFCRLF_def LFLF_def CRLF_def LFonly_def)

lemma LFLF_neq_CRLFCRLF: "LFLF \<noteq> CRLFCRLF"
  by (simp add: LFLF_def CRLFCRLF_def)

section \<open>The forwarder: the header/body split\<close>

text \<open>
  With the message split at its boundary, the result of \<open>rewriteEmail\<close> is the joined
  rewritten header lines followed by what the source calls \<open>body\<close>: the separator and
  the body.
\<close>

lemma rewriteWithSplit_lines:
  "rewriteWithSplit DOMAIN raw splitIndex separator forwardFrom =
     joinStr (rewriteLines DOMAIN forwardFrom
                (splitStr (take splitIndex raw) (if separator = CRLFCRLF then CRLF else LFonly)))
             (if separator = CRLFCRLF then CRLF else LFonly)
     @ drop splitIndex raw"
  by (simp add: rewriteWithSplit_def rewriteLines_def emitLines_def Let_def split: prod.splits)

lemma rewriteEmail_tokenize:
  assumes "tokenize raw = Some (hdr, body, lb)"
  shows "rewriteEmail DOMAIN raw forwardFrom destination =
           joinStr (rewriteLines DOMAIN forwardFrom (splitStr hdr lb)) lb @ lb @ lb @ body"
    and "raw = hdr @ lb @ lb @ body"
proof -
  show "rewriteEmail DOMAIN raw forwardFrom destination =
           joinStr (rewriteLines DOMAIN forwardFrom (splitStr hdr lb)) lb @ lb @ lb @ body"
  proof (cases "indexOf raw CRLFCRLF")
    case (Some i)
    with assms have e: "hdr = take i raw" "body = drop (i + 4) raw" "lb = CRLF"
      by (simp_all add: tokenize_def)
    from indexOf_Some_drop [OF Some] have "drop i raw = CRLFCRLF @ drop (i + 4) raw"
      by (simp only: length_separators)
    then have "drop i raw = (CRLF @ CRLF) @ drop (i + 4) raw"
      by (simp only: separators_double)
    with Some e show ?thesis
      by (simp add: rewriteEmail_def rewriteWithSplit_lines)
  next
    case None
    show ?thesis
    proof (cases "indexOf raw LFLF")
      case (Some j)
      with None assms have e: "hdr = take j raw" "body = drop (j + 2) raw" "lb = LFonly"
        by (simp_all add: tokenize_def)
      from indexOf_Some_drop [OF Some] have "drop j raw = LFLF @ drop (j + 2) raw"
        by (simp only: length_separators)
      then have "drop j raw = (LFonly @ LFonly) @ drop (j + 2) raw"
        by (simp only: separators_double)
      with None Some e show ?thesis
        by (simp add: rewriteEmail_def rewriteWithSplit_lines LFLF_neq_CRLFCRLF)
    next
      case n2: None
      with None assms show ?thesis by (simp add: tokenize_def)
    qed
  qed
  show "raw = hdr @ lb @ lb @ body"
  proof (cases "indexOf raw CRLFCRLF")
    case (Some i)
    with assms have e: "hdr = take i raw" "body = drop (i + 4) raw" "lb = CRLF"
      by (simp_all add: tokenize_def)
    from indexOf_Some_drop [OF Some] have "drop i raw = CRLFCRLF @ drop (i + 4) raw"
      by (simp only: length_separators)
    then have "drop i raw = (CRLF @ CRLF) @ drop (i + 4) raw"
      by (simp only: separators_double)
    then have "take i raw @ drop i raw = take i raw @ CRLF @ CRLF @ drop (i + 4) raw"
      by simp
    with e show ?thesis by simp
  next
    case None
    with assms obtain j where j: "indexOf raw LFLF = Some j"
      and e: "hdr = take j raw" "body = drop (j + 2) raw" "lb = LFonly"
      by (auto simp: tokenize_def split: option.splits)
    from indexOf_Some_drop [OF j] have "drop j raw = LFLF @ drop (j + 2) raw"
      by (simp only: length_separators)
    then have "drop j raw = (LFonly @ LFonly) @ drop (j + 2) raw"
      by (simp only: separators_double)
    then have "take j raw @ drop j raw = take j raw @ LFonly @ LFonly @ drop (j + 2) raw"
      by simp
    with e show ?thesis by simp
  qed
qed

text \<open>A message has a boundary exactly when it contains CR LF CR LF or LF LF.\<close>

lemma tokenize_Some_iff:
  "(\<exists>hdr body lb. tokenize raw = Some (hdr, body, lb)) \<longleftrightarrow> sublist CRLFCRLF raw \<or> sublist LFLF raw"
proof -
  have "indexOf raw CRLFCRLF = None \<longleftrightarrow> \<not> sublist CRLFCRLF raw"
    and "indexOf raw LFLF = None \<longleftrightarrow> \<not> sublist LFLF raw"
    by (simp_all add: indexOf_None_iff)
  then show ?thesis
    by (auto simp: tokenize_def split: option.splits)
qed

text \<open>
  Plain lines joined by the line break of a message, followed by the line break twice
  and the body of that message, split again at the same place: the first boundary of
  the joined text is the separator that was appended.
\<close>

lemma noLineBreak_subset: "noLineBreak s \<Longrightarrow> set t \<subseteq> set s \<Longrightarrow> noLineBreak t"
  unfolding noLineBreak_def by auto

lemma noLineBreak_append [simp]: "noLineBreak (s @ t) \<longleftrightarrow> noLineBreak s \<and> noLineBreak t"
  unfolding noLineBreak_def by auto

lemma noLineBreak_Cons [simp]:
  "noLineBreak (c # s) \<longleftrightarrow> c \<noteq> 0x0D \<and> c \<noteq> 0x0A \<and> noLineBreak s"
  unfolding noLineBreak_def by auto

lemma tokenize_joined:
  assumes "tokenize raw = Some (hdr, body, lb)" and "\<forall>l \<in> set L. plainLine l"
  shows "tokenize (joinStr L lb @ lb @ lb @ body) = Some (joinStr L lb, body, lb)"
proof (cases "indexOf raw CRLFCRLF")
  case (Some i)
  with assms(1) have lb: "lb = CRLF" by (simp add: tokenize_def)
  let ?H = "joinStr L CRLF"
  have crlf: "CRLF = 0x0D # [0x0A]" "(0x0D :: jschar) \<notin> set [0x0A]" by (simp_all add: CRLF_def)
  from assms(2) have L: "\<forall>l \<in> set L. l \<noteq> [] \<and> 0x0D \<notin> set l"
    by (simp add: plainLine_def noLineBreak_def)
  have "\<forall>j < length ?H. \<not> prefix CRLFCRLF (drop j (?H @ CRLF @ CRLF @ body))"
    unfolding separators_double crlf(1)
    using joinStr_no_boundary [OF crlf(2) L] by blast
  moreover have "prefix CRLFCRLF (drop (length ?H) (?H @ CRLF @ CRLF @ body))"
    by (simp add: separators_double)
  ultimately have "indexOf (?H @ CRLF @ CRLF @ body) CRLFCRLF = Some (length ?H)"
    by (intro indexOf_SomeI) simp_all
  then show ?thesis
    unfolding lb by (simp add: tokenize_def CRLF_def)
next
  case None
  with assms(1) obtain j where j: "indexOf raw LFLF = Some j" and lb: "lb = LFonly"
    by (auto simp: tokenize_def split: option.splits)
  let ?H = "joinStr L LFonly"
  from rewriteEmail_tokenize(2) [OF assms(1)] lb have raw: "raw = hdr @ LFonly @ LFonly @ body"
    by simp
  from None have "\<not> sublist CRLFCRLF raw" by (simp add: indexOf_None_iff)
  with raw have nb: "\<not> sublist CRLFCRLF (LFonly @ LFonly @ body)"
    by (auto simp: sublist_append)
  from assms(2) have "\<forall>l \<in> set L. 0x0D \<notin> set l" by (simp add: plainLine_def noLineBreak_def)
  with set_joinStr [of L LFonly] have cr: "0x0D \<notin> set ?H" by (auto simp: LFonly_def)
  have "sublist (0x0D # [0x0A, 0x0D, 0x0A]) (?H @ LFonly @ LFonly @ body)
      \<Longrightarrow> sublist (0x0D # [0x0A, 0x0D, 0x0A]) (LFonly @ LFonly @ body)"
    by (rule sublist_skip [OF cr])
  with nb have "\<not> sublist CRLFCRLF (?H @ LFonly @ LFonly @ body)"
    unfolding CRLFCRLF_def by blast
  then have n: "indexOf (?H @ LFonly @ LFonly @ body) CRLFCRLF = None"
    by (simp add: indexOf_None_iff)
  have lf: "LFonly = 0x0A # []" "(0x0A :: jschar) \<notin> set []" by (simp_all add: LFonly_def)
  from assms(2) have L: "\<forall>l \<in> set L. l \<noteq> [] \<and> 0x0A \<notin> set l"
    by (simp add: plainLine_def noLineBreak_def)
  have "\<forall>j < length ?H. \<not> prefix LFLF (drop j (?H @ LFonly @ LFonly @ body))"
    unfolding separators_double lf(1)
    using joinStr_no_boundary [OF lf(2) L] by blast
  moreover have "prefix LFLF (drop (length ?H) (?H @ LFonly @ LFonly @ body))"
    by (simp add: separators_double)
  ultimately have "indexOf (?H @ LFonly @ LFonly @ body) LFLF = Some (length ?H)"
    by (intro indexOf_SomeI) simp_all
  with n show ?thesis
    unfolding lb by (simp add: tokenize_def LFonly_def)
qed

section \<open>The forwarder: the header patterns\<close>

lemma matchPrefixCI_Some_iff:
  "matchPrefixCI p l = Some r \<longleftrightarrow>
     length p \<le> length l \<and> map canonicalize (take (length p) l) = map canonicalize p
     \<and> r = drop (length p) l"
  by (induction p l rule: matchPrefixCI.induct) auto

lemma isWhiteSpace_canonicalize: "isWhiteSpace c \<Longrightarrow> canonicalize c = c"
  unfolding canonicalize_def isWhiteSpace_def
  by (auto simp: word_le_nat_alt)

lemma length_js: "length (js s) = length s"
  by (simp add: js_def)

lemma named_nth:
  assumes "matchPrefixCI (js name @ js '':'') line = Some rest" and "i < length name"
  shows "i < length line \<and> canonicalize (line ! i) = canonicalize (js name ! i)"
proof -
  let ?p = "js name @ js '':''"
  from assms(1) have len: "length ?p \<le> length line"
    and eq: "map canonicalize (take (length ?p) line) = map canonicalize ?p"
    by (simp_all add: matchPrefixCI_Some_iff)
  from assms(2) have i: "i < length ?p" by (simp add: length_js)
  with len have il: "i < length line" by simp
  have a: "map canonicalize (take (length ?p) line) ! i = canonicalize (take (length ?p) line ! i)"
    by (rule nth_map) (use i len in simp)
  have b: "map canonicalize ?p ! i = canonicalize (?p ! i)"
    by (rule nth_map) (rule i)
  have c: "take (length ?p) line ! i = line ! i"
    using i by simp
  from eq a b c have "canonicalize (line ! i) = canonicalize (?p ! i)" by simp
  moreover from assms(2) have "?p ! i = js name ! i" by (simp add: nth_append length_js)
  ultimately show ?thesis using il by simp
qed

lemma nameColonNoSpace_not_headerMatch:
  "nameColonNoSpace name line \<Longrightarrow> \<not> headerMatch name line"
  by (auto simp: nameColonNoSpace_def headerMatch_def split: option.splits list.splits)

lemma headerMatch_hasName: "headerMatch name line \<Longrightarrow> hasName name line"
  by (auto simp: headerMatch_def hasName_def split: option.splits)

lemma nameColonNoSpace_hasName: "nameColonNoSpace name line \<Longrightarrow> hasName name line"
  by (auto simp: nameColonNoSpace_def hasName_def split: option.splits)

lemma hasName_nth:
  "hasName name line \<Longrightarrow> i < length name \<Longrightarrow>
     i < length line \<and> canonicalize (line ! i) = canonicalize (js name ! i)"
  unfolding hasName_def using named_nth by blast

lemma hasName_From: "hasName ''From'' line \<Longrightarrow> line \<noteq> [] \<and> canonicalize (line ! 0) = 0x46"
  using hasName_nth [of "''From''" line 0] by (auto simp: js_def canonicalize_def)

lemma hasName_DKIM:
  "hasName ''DKIM-Signature'' line \<Longrightarrow> line \<noteq> [] \<and> canonicalize (line ! 0) = 0x44"
  using hasName_nth [of "''DKIM-Signature''" line 0] by (auto simp: js_def canonicalize_def)

lemma hasName_ReplyTo:
  "hasName ''Reply-To'' line \<Longrightarrow>
     line \<noteq> [] \<and> canonicalize (line ! 0) = 0x52 \<and> canonicalize (line ! 2) = 0x50"
  using hasName_nth [of "''Reply-To''" line 0] hasName_nth [of "''Reply-To''" line 2]
  by (auto simp: js_def canonicalize_def)

lemma hasName_ReturnPath:
  "hasName ''Return-Path'' line \<Longrightarrow>
     line \<noteq> [] \<and> canonicalize (line ! 0) = 0x52 \<and> canonicalize (line ! 2) = 0x54"
  using hasName_nth [of "''Return-Path''" line 0] hasName_nth [of "''Return-Path''" line 2]
  by (auto simp: js_def canonicalize_def)

lemma hasName_cases:
  assumes "name \<in> headerNames" and "hasName name line"
  shows "line \<noteq> [] \<and> canonicalize (line ! 0) \<in> {0x46, 0x44, 0x52}"
proof -
  from assms(1) consider "name = ''From''" | "name = ''Reply-To''" | "name = ''DKIM-Signature''"
    | "name = ''Return-Path''"
    unfolding headerNames_def by blast
  then show ?thesis
    using assms(2) hasName_From hasName_DKIM hasName_ReplyTo hasName_ReturnPath
    by cases auto
qed

lemma hasName_clash:
  assumes "hasName a line" and "hasName b line" and "i < length a" and "i < length b"
  shows "canonicalize (js a ! i) = canonicalize (js b ! i)"
  using hasName_nth [OF assms(1,3)] hasName_nth [OF assms(2,4)] by simp

lemma hasName_exclusive:
  "\<not> (hasName ''From'' line \<and> hasName ''Reply-To'' line)"
  "\<not> (hasName ''From'' line \<and> hasName ''DKIM-Signature'' line)"
  "\<not> (hasName ''From'' line \<and> hasName ''Return-Path'' line)"
  "\<not> (hasName ''Reply-To'' line \<and> hasName ''DKIM-Signature'' line)"
  "\<not> (hasName ''Reply-To'' line \<and> hasName ''Return-Path'' line)"
  "\<not> (hasName ''DKIM-Signature'' line \<and> hasName ''Return-Path'' line)"
  using hasName_clash [of "''From''" line "''Reply-To''" 0]
    hasName_clash [of "''From''" line "''DKIM-Signature''" 0]
    hasName_clash [of "''From''" line "''Return-Path''" 0]
    hasName_clash [of "''Reply-To''" line "''DKIM-Signature''" 0]
    hasName_clash [of "''Reply-To''" line "''Return-Path''" 2]
    hasName_clash [of "''DKIM-Signature''" line "''Return-Path''" 0]
  by (simp_all add: js_def canonicalize_def) blast+

lemma canon_letter_not_space:
  assumes "canonicalize c \<in> {0x46, 0x44, 0x52}"
  shows "\<not> isWhiteSpace c"
proof
  assume "isWhiteSpace c"
  then have "canonicalize c = c" by (rule isWhiteSpace_canonicalize)
  with assms have "c \<in> {0x46, 0x44, 0x52}" by simp
  with \<open>isWhiteSpace c\<close> show False by (auto simp: isWhiteSpace_def)
qed

lemma letter_line_not_space:
  "line \<noteq> [] \<Longrightarrow> canonicalize (line ! 0) \<in> {0x46, 0x44, 0x52} \<Longrightarrow> \<not> startsWithWhiteSpace line"
proof (cases line)
  case Nil
  then show ?thesis by (simp add: startsWithWhiteSpace_def)
next
  case (Cons c cs)
  assume "canonicalize (line ! 0) \<in> {0x46, 0x44, 0x52}"
  with Cons have "canonicalize c \<in> {0x46, 0x44, 0x52}" by simp
  then have "\<not> isWhiteSpace c" by (rule canon_letter_not_space)
  with Cons show ?thesis by (simp add: startsWithWhiteSpace_def)
qed

lemma letter_line_not_SKIP:
  "line \<noteq> [] \<Longrightarrow> canonicalize (line ! 0) \<in> {0x46, 0x44, 0x52} \<Longrightarrow> line \<noteq> SKIP"
  by (auto simp: SKIP_def js_def canonicalize_def)

lemma unrecognised_line:
  assumes "name \<in> headerNames" and "nameColonNoSpace name line"
  shows "\<not> headerMatch ''From'' line" and "\<not> headerMatch ''Reply-To'' line"
    and "\<not> headerMatch ''DKIM-Signature'' line" and "\<not> headerMatch ''Return-Path'' line"
    and "\<not> startsWithWhiteSpace line" and "line \<noteq> SKIP"
proof -
  from assms(2) have hn: "hasName name line" by (rule nameColonNoSpace_hasName)
  from assms(2) have own: "\<not> headerMatch name line" by (rule nameColonNoSpace_not_headerMatch)
  from assms(1) consider "name = ''From''" | "name = ''Reply-To''" | "name = ''DKIM-Signature''"
    | "name = ''Return-Path''"
    unfolding headerNames_def by blast
  then have "\<not> headerMatch ''From'' line \<and> \<not> headerMatch ''Reply-To'' line
      \<and> \<not> headerMatch ''DKIM-Signature'' line \<and> \<not> headerMatch ''Return-Path'' line"
  proof cases
    case 1
    with hn own hasName_exclusive(1,2,3) [of line] show ?thesis
      by (blast dest: headerMatch_hasName)
  next
    case 2
    with hn own hasName_exclusive(1,4,5) [of line] show ?thesis
      by (blast dest: headerMatch_hasName)
  next
    case 3
    with hn own hasName_exclusive(2,4,6) [of line] show ?thesis
      by (blast dest: headerMatch_hasName)
  next
    case 4
    with hn own hasName_exclusive(3,5,6) [of line] show ?thesis
      by (blast dest: headerMatch_hasName)
  qed
  then show "\<not> headerMatch ''From'' line" and "\<not> headerMatch ''Reply-To'' line"
    and "\<not> headerMatch ''DKIM-Signature'' line" and "\<not> headerMatch ''Return-Path'' line"
    by simp_all
  from hasName_cases [OF assms(1) hn]
  have l: "line \<noteq> []" "canonicalize (line ! 0) \<in> {0x46, 0x44, 0x52}" by simp_all
  then show "\<not> startsWithWhiteSpace line" by (rule letter_line_not_space)
  from l show "line \<noteq> SKIP" by (rule letter_line_not_SKIP)
qed



lemma fromHeader_not_SKIP: "fromHeader DOMAIN forwardFrom originalName originalEmail \<noteq> SKIP"
  by (simp add: fromHeader_def SKIP_def js_def Let_def)

lemma replyToHeader_not_SKIP: "replyToHeader originalFrom \<noteq> SKIP"
  by (simp add: replyToHeader_def SKIP_def js_def)

text \<open>
  The patterns take their values out of the line: the original From value, the name and
  the address contain no character the line does not contain.
\<close>

lemma set_matchPrefixCI: "matchPrefixCI p s = Some r \<Longrightarrow> set r \<subseteq> set s"
  by (induction p s rule: matchPrefixCI.induct) (auto split: if_splits)

lemma set_stripFromPrefix: "set (stripFromPrefix line) \<subseteq> set line"
  unfolding stripFromPrefix_def
  by (auto split: option.splits dest!: set_matchPrefixCI set_dropWhileD)

lemma set_matchAngle: "matchAngle s = Some m \<Longrightarrow> set m \<subseteq> set s"
  by (induction s) (auto split: if_splits dest: set_takeWhileD)

lemma set_extractEmail: "set (extractEmail v) \<subseteq> set v"
  unfolding extractEmail_def
  using set_trim [of v] by (auto split: option.splits dest!: set_matchAngle)

lemma set_matchName: "matchName v = Some m \<Longrightarrow> set m \<subseteq> set v"
  unfolding matchName_def Let_def
  by (cases v) (auto split: if_splits list.splits dest: set_takeWhileD)

lemma set_extractName: "set (extractName v) \<subseteq> set v"
proof (cases "matchName v")
  case None
  then show ?thesis by (simp add: extractName_def)
next
  case (Some m)
  then have "set m \<subseteq> set v" by (rule set_matchName)
  with set_trim [of m] Some show ?thesis by (auto simp: extractName_def)
qed

lemma plainLine_fromHeader:
  assumes "noLineBreak DOMAIN" and "noLineBreak forwardFrom" and "noLineBreak originalFrom"
  shows "plainLine (fromHeader DOMAIN forwardFrom (extractName originalFrom) (extractEmail originalFrom))"
proof -
  from assms(3) have "noLineBreak (extractName originalFrom)" "noLineBreak (extractEmail originalFrom)"
    using set_extractName set_extractEmail by (blast intro: noLineBreak_subset)+
  moreover have "noLineBreak (js ''From: '')" "noLineBreak [0x22]" "noLineBreak (js '' via '')"
    "noLineBreak (js '' <'')" "noLineBreak (js ''>'')" "js ''From: '' \<noteq> []"
    by (simp_all add: js_def noLineBreak_def)
  ultimately show ?thesis
    using assms(1,2) by (simp add: plainLine_def fromHeader_def Let_def)
qed

lemma plainLine_replyToHeader:
  assumes "noLineBreak originalFrom"
  shows "plainLine (replyToHeader originalFrom)"
proof -
  have "noLineBreak (js ''Reply-To: '')" "js ''Reply-To: '' \<noteq> []"
    by (simp_all add: noLineBreak_def js_def)
  with assms show ?thesis by (simp add: plainLine_def replyToHeader_def)
qed



section \<open>The forwarder: the two loops\<close>

text \<open>
  The second loop reads of \<open>newLines\<close> only whether its last element is the marker,
  so what it appends depends on that alone.
\<close>

lemma skipLast_Nil: "\<not> skipLast []"
  by (simp add: skipLast_def)

lemma skipLast_append: "skipLast (a @ out) = (if out = [] then skipLast a else skipLast out)"
  by (simp add: skipLast_def)

lemma secondPassStep_out:
  assumes "skipLast a = skipLast b"
  shows "\<exists>out. secondPassStep D f oF hR oE oN a line = a @ out
             \<and> secondPassStep D f oF hR oE oN b line = b @ out"
  using assms by (auto simp: secondPassStep_def skipLast_def)

lemma secondPass_out:
  assumes "skipLast a = skipLast b"
  shows "\<exists>out. foldl (secondPassStep D f oF hR oE oN) a lines = a @ out
             \<and> foldl (secondPassStep D f oF hR oE oN) b lines = b @ out"
  using assms
proof (induction lines arbitrary: a b)
  case Nil
  then show ?case by simp
next
  case (Cons line lines)
  from secondPassStep_out [OF Cons.prems] obtain o1 where
    o1: "secondPassStep D f oF hR oE oN a line = a @ o1"
        "secondPassStep D f oF hR oE oN b line = b @ o1"
    by blast
  from Cons.prems have "skipLast (a @ o1) = skipLast (b @ o1)"
    by (simp add: skipLast_append)
  from Cons.IH [OF this] obtain o2 where
    "foldl (secondPassStep D f oF hR oE oN) (a @ o1) lines = (a @ o1) @ o2"
    "foldl (secondPassStep D f oF hR oE oN) (b @ o1) lines = (b @ o1) @ o2"
    by blast
  with o1 show ?case by (intro exI [of _ "o1 @ o2"]) simp
qed

lemma secondPass_restart:
  assumes "\<not> skipLast a"
  shows "foldl (secondPassStep D f oF hR oE oN) a lines
           = a @ foldl (secondPassStep D f oF hR oE oN) [] lines"
proof -
  from assms have "skipLast a = skipLast []" by (simp add: skipLast_Nil)
  from secondPass_out [OF this] obtain out where
    "foldl (secondPassStep D f oF hR oE oN) a lines = a @ out"
    "foldl (secondPassStep D f oF hR oE oN) [] lines = [] @ out"
    by blast
  then show ?thesis by simp
qed

lemma secondPassStep_From:
  assumes "headerMatch ''From'' line"
  shows "secondPassStep D f oF hR oE oN a line =
           a @ [fromHeader D f oN oE] @ (if \<not> hR \<and> oE \<noteq> [] then [replyToHeader oF] else [])"
proof -
  from assms have h: "line \<noteq> []" "canonicalize (line ! 0) = 0x46"
    using hasName_From headerMatch_hasName by blast+
  have "\<not> headerMatch ''DKIM-Signature'' line"
  proof
    assume "headerMatch ''DKIM-Signature'' line"
    then have "canonicalize (line ! 0) = 0x44"
      using hasName_DKIM headerMatch_hasName by blast
    with h show False by simp
  qed
  moreover from h have "\<not> startsWithWhiteSpace line"
    by (intro letter_line_not_space) simp_all
  ultimately show ?thesis using assms by (simp add: secondPassStep_def)
qed

lemma emitLines_From:
  assumes "headerMatch ''From'' line"
  shows "emitLines D f oF hR (pre @ line # post) =
           emitLines D f oF hR pre
           @ [fromHeader D f (extractName oF) (extractEmail oF)]
           @ (if \<not> hR \<and> extractEmail oF \<noteq> [] then [replyToHeader oF] else [])
           @ emitLines D f oF hR post"
proof -
  let ?step = "secondPassStep D f oF hR (extractEmail oF) (extractName oF)"
  let ?new = "[fromHeader D f (extractName oF) (extractEmail oF)]
           @ (if \<not> hR \<and> extractEmail oF \<noteq> [] then [replyToHeader oF] else [])"
  let ?a = "foldl ?step [] pre"
  have "\<not> skipLast (?a @ ?new)"
    by (simp add: skipLast_def fromHeader_not_SKIP replyToHeader_not_SKIP)
  then have "foldl ?step (?a @ ?new) post = (?a @ ?new) @ foldl ?step [] post"
    by (rule secondPass_restart)
  moreover have "foldl ?step [] (pre @ line # post) = foldl ?step (?a @ ?new) post"
    using secondPassStep_From [OF assms] by simp
  ultimately have "foldl ?step [] (pre @ line # post) = (?a @ ?new) @ foldl ?step [] post"
    by simp
  then show ?thesis
    by (simp add: emitLines_def fromHeader_not_SKIP replyToHeader_not_SKIP)
qed

lemma emitLines_kept:
  assumes "\<not> headerMatch ''From'' line" and "\<not> headerMatch ''Reply-To'' line"
    and "\<not> headerMatch ''DKIM-Signature'' line" and "\<not> headerMatch ''Return-Path'' line"
    and "\<not> startsWithWhiteSpace line" and "line \<noteq> SKIP"
  shows "emitLines D f oF hR (pre @ line # post) =
           emitLines D f oF hR pre @ [line] @ emitLines D f oF hR post"
proof -
  let ?step = "secondPassStep D f oF hR (extractEmail oF) (extractName oF)"
  let ?a = "foldl ?step [] pre"
  from assms(1-5) have "?step ?a line = ?a @ [line]"
    by (simp add: secondPassStep_def)
  then have "foldl ?step [] (pre @ line # post) = foldl ?step (?a @ [line]) post"
    by simp
  moreover from assms(6) have "\<not> skipLast (?a @ [line])"
    by (simp add: skipLast_def)
  then have "foldl ?step (?a @ [line]) post = (?a @ [line]) @ foldl ?step [] post"
    by (rule secondPass_restart)
  ultimately show ?thesis using assms(6) by (simp add: emitLines_def)
qed




lemma firstPass_fold:
  "foldl firstPassStep st lines =
     ((if filter (headerMatch ''From'') lines = [] then fst st
       else trim (stripFromPrefix (last (filter (headerMatch ''From'') lines)))),
      snd st \<or> (\<exists>l \<in> set lines. headerMatch ''Reply-To'' l))"
proof (induction lines arbitrary: st)
  case Nil
  then show ?case by simp
next
  case (Cons line lines)
  have "foldl firstPassStep st (line # lines) = foldl firstPassStep (firstPassStep st line) lines"
    by simp
  also have "\<dots> =
     ((if filter (headerMatch ''From'') lines = [] then fst (firstPassStep st line)
       else trim (stripFromPrefix (last (filter (headerMatch ''From'') lines)))),
      snd (firstPassStep st line) \<or> (\<exists>l \<in> set lines. headerMatch ''Reply-To'' l))"
    by (rule Cons.IH)
  also have "\<dots> =
     ((if filter (headerMatch ''From'') (line # lines) = [] then fst st
       else trim (stripFromPrefix (last (filter (headerMatch ''From'') (line # lines))))),
      snd st \<or> (\<exists>l \<in> set (line # lines). headerMatch ''Reply-To'' l))"
    by (auto simp: firstPassStep_def Let_def)
  finally show ?case .
qed

lemma firstPass_skip:
  assumes "\<not> headerMatch ''From'' line" and "\<not> headerMatch ''Reply-To'' line"
  shows "firstPass (pre @ line # post) = firstPass (pre @ post)"
proof -
  from assms have "\<And>st. firstPassStep st line = st"
    by (simp add: firstPassStep_def)
  then show ?thesis by (simp add: firstPass_def)
qed




text \<open>
  What the two loops emit is a line of the input or one of the two synthesized lines, so
  plain lines, a plain \<open>forwardFrom\<close> and a plain domain give plain lines.
\<close>

lemma noLineBreak_firstPass:
  assumes "\<forall>l \<in> set lines. noLineBreak l"
  shows "noLineBreak (fst (firstPass lines))"
proof (cases "filter (headerMatch ''From'') lines = []")
  case True
  then show ?thesis
    unfolding firstPass_def by (simp add: firstPass_fold noLineBreak_def)
next
  case False
  then have "last (filter (headerMatch ''From'') lines) \<in> set (filter (headerMatch ''From'') lines)"
    by (rule last_in_set)
  with assms have "noLineBreak (last (filter (headerMatch ''From'') lines))" by simp
  moreover have "set (trim (stripFromPrefix (last (filter (headerMatch ''From'') lines))))
      \<subseteq> set (last (filter (headerMatch ''From'') lines))"
    using set_trim set_stripFromPrefix by blast
  ultimately have "noLineBreak (trim (stripFromPrefix (last (filter (headerMatch ''From'') lines))))"
    by (rule noLineBreak_subset)
  with False show ?thesis
    unfolding firstPass_def by (simp add: firstPass_fold)
qed

lemma set_secondPass:
  "set (foldl (secondPassStep DOMAIN forwardFrom originalFrom hasReplyTo originalEmail originalName) acc lines)
     \<subseteq> set acc \<union> set lines
        \<union> {fromHeader DOMAIN forwardFrom originalName originalEmail, replyToHeader originalFrom}"
proof (induction lines arbitrary: acc)
  case Nil
  then show ?case by auto
next
  case (Cons l ls)
  have "set (secondPassStep DOMAIN forwardFrom originalFrom hasReplyTo originalEmail originalName acc l)
     \<subseteq> set acc \<union> {l}
        \<union> {fromHeader DOMAIN forwardFrom originalName originalEmail, replyToHeader originalFrom}"
    unfolding secondPassStep_def by (simp add: subset_iff)
  with Cons.IH [of "secondPassStep DOMAIN forwardFrom originalFrom hasReplyTo originalEmail originalName acc l"]
  show ?case by auto
qed

lemma plainLine_rewriteLines:
  assumes "\<forall>l \<in> set lines. plainLine l" and "noLineBreak DOMAIN" and "noLineBreak forwardFrom"
  shows "\<forall>l \<in> set (rewriteLines DOMAIN forwardFrom lines). plainLine l"
proof
  fix l
  assume l: "l \<in> set (rewriteLines DOMAIN forwardFrom lines)"
  let ?oF = "fst (firstPass lines)"
  from assms(1) have "\<forall>l \<in> set lines. noLineBreak l" by (simp add: plainLine_def)
  then have oF: "noLineBreak ?oF" by (rule noLineBreak_firstPass)
  from l have "l \<in> set (foldl (secondPassStep DOMAIN forwardFrom ?oF (snd (firstPass lines))
                 (extractEmail ?oF) (extractName ?oF)) [] lines)"
    by (simp add: rewriteLines_def emitLines_def)
  with set_secondPass [of DOMAIN forwardFrom ?oF "snd (firstPass lines)" "extractEmail ?oF" "extractName ?oF" "[]" lines]
  have "l \<in> set lines \<or> l = fromHeader DOMAIN forwardFrom (extractName ?oF) (extractEmail ?oF)
      \<or> l = replyToHeader ?oF"
    by auto
  with assms(1) plainLine_fromHeader [OF assms(2,3) oF] plainLine_replyToHeader [OF oF]
  show "plainLine l" by auto
qed

section \<open>The forwarder: the claims\<close>

text \<open>
  Claim C5 (pass-through). A raw message that contains neither CR LF CR LF nor LF LF is
  returned as it is, whatever \<open>forwardFrom\<close>, the destination and the domain are.
\<close>

theorem rewriteEmail_passthrough:
  assumes "\<not> sublist CRLFCRLF raw" and "\<not> sublist LFLF raw"
  shows "rewriteEmail DOMAIN raw forwardFrom destination = raw"
proof -
  from assms have "indexOf raw CRLFCRLF = None" and "indexOf raw LFLF = None"
    by (simp_all add: indexOf_None_iff)
  then show ?thesis by (simp add: rewriteEmail_def)
qed

theorem rewriteEmail_passthrough_witness:
  "\<not> sublist CRLFCRLF (js ''Subject: hi'' @ CRLF @ js ''no blank line'')
   \<and> \<not> sublist LFLF (js ''Subject: hi'' @ CRLF @ js ''no blank line'')
   \<and> rewriteEmail (js ''example.com'') (js ''Subject: hi'' @ CRLF @ js ''no blank line'')
        (js ''hello@example.com'') (js ''you@gmail.com'')
      = js ''Subject: hi'' @ CRLF @ js ''no blank line''"
proof -
  have a: "\<not> sublist CRLFCRLF (js ''Subject: hi'' @ CRLF @ js ''no blank line'')"
    by (simp add: js_def CRLF_def CRLFCRLF_def sublist_code)
  have b: "\<not> sublist LFLF (js ''Subject: hi'' @ CRLF @ js ''no blank line'')"
    by (simp add: js_def CRLF_def LFLF_def sublist_code)
  from a b rewriteEmail_passthrough [OF a b] show ?thesis by blast
qed

text \<open>
  Claim C4, as amended (body preservation). A message that contains CR LF CR LF or LF LF
  splits at its first boundary into a header section, the line break twice and a body,
  and the result of \<open>rewriteEmail\<close> is the rewritten header lines joined by the line
  break, the line break twice, and the body of the input, byte for byte, whatever
  \<open>forwardFrom\<close> and the domain are: the header part is computed from the header
  section, \<open>forwardFrom\<close> and the domain only, and the body is not read. When every
  line of the header section is plain (not empty, without CR and without LF) and
  \<open>forwardFrom\<close> and the domain contain no CR and no LF, the first boundary of the
  result is that separator: the result splits into the rewritten header text, the same
  line break and the body of the input.
\<close>

theorem rewriteEmail_body:
  assumes "sublist CRLFCRLF raw \<or> sublist LFLF raw"
  shows "\<exists>hdr body lb.
           tokenize raw = Some (hdr, body, lb)
         \<and> raw = hdr @ lb @ lb @ body
         \<and> rewriteEmail DOMAIN raw forwardFrom destination =
             joinStr (rewriteLines DOMAIN forwardFrom (splitStr hdr lb)) lb @ lb @ lb @ body
         \<and> (list_all plainLine (splitStr hdr lb) \<and> noLineBreak forwardFrom \<and> noLineBreak DOMAIN
            \<longrightarrow> tokenize (rewriteEmail DOMAIN raw forwardFrom destination) =
                  Some (joinStr (rewriteLines DOMAIN forwardFrom (splitStr hdr lb)) lb, body, lb))"
proof -
  from assms obtain hdr body lb where t: "tokenize raw = Some (hdr, body, lb)"
    using tokenize_Some_iff by blast
  note r = rewriteEmail_tokenize(1) [OF t, of DOMAIN forwardFrom destination]
    rewriteEmail_tokenize(2) [OF t]
  have "tokenize (rewriteEmail DOMAIN raw forwardFrom destination) =
          Some (joinStr (rewriteLines DOMAIN forwardFrom (splitStr hdr lb)) lb, body, lb)"
    if "list_all plainLine (splitStr hdr lb)" and "noLineBreak forwardFrom" and "noLineBreak DOMAIN"
  proof -
    from that(1) have "\<forall>l \<in> set (splitStr hdr lb). plainLine l" by (simp add: list_all_iff)
    then have "\<forall>l \<in> set (rewriteLines DOMAIN forwardFrom (splitStr hdr lb)). plainLine l"
      using that(3,2) by (rule plainLine_rewriteLines)
    with t have "tokenize (joinStr (rewriteLines DOMAIN forwardFrom (splitStr hdr lb)) lb @ lb @ lb @ body) =
          Some (joinStr (rewriteLines DOMAIN forwardFrom (splitStr hdr lb)) lb, body, lb)"
      by (rule tokenize_joined)
    then show ?thesis by (simp only: r(1))
  qed
  with t r show ?thesis by blast
qed

theorem rewriteEmail_body_witness:
  "sublist LFLF (js ''Return-Path: <a@x.io>'' @ LFonly @ js ''From: a@x.io'' @ LFLF @ js ''Hi'' @ LFLF @ js ''x'')
   \<and> tokenize (js ''Return-Path: <a@x.io>'' @ LFonly @ js ''From: a@x.io'' @ LFLF @ js ''Hi'' @ LFLF @ js ''x'')
     = Some (js ''Return-Path: <a@x.io>'' @ LFonly @ js ''From: a@x.io'', js ''Hi'' @ LFLF @ js ''x'', LFonly)
   \<and> list_all plainLine (splitStr (js ''Return-Path: <a@x.io>'' @ LFonly @ js ''From: a@x.io'') LFonly)
   \<and> noLineBreak (js ''b@y.io'') \<and> noLineBreak (js ''y.io'')
   \<and> rewriteEmail (js ''y.io'')
        (js ''Return-Path: <a@x.io>'' @ LFonly @ js ''From: a@x.io'' @ LFLF @ js ''Hi'' @ LFLF @ js ''x'')
        (js ''b@y.io'') (js ''me@z.io'')
     = js ''From: '' @ [0x22] @ js ''a@x.io via y.io'' @ [0x22] @ js '' <b@y.io>'' @ LFonly
       @ js ''Reply-To: a@x.io'' @ LFonly @ LFonly @ js ''Hi'' @ LFLF @ js ''x''
   \<and> tokenize (rewriteEmail (js ''y.io'')
        (js ''Return-Path: <a@x.io>'' @ LFonly @ js ''From: a@x.io'' @ LFLF @ js ''Hi'' @ LFLF @ js ''x'')
        (js ''b@y.io'') (js ''me@z.io''))
     = Some (js ''From: '' @ [0x22] @ js ''a@x.io via y.io'' @ [0x22] @ js '' <b@y.io>'' @ LFonly
             @ js ''Reply-To: a@x.io'', js ''Hi'' @ LFLF @ js ''x'', LFonly)"
proof -
  let ?raw = "js ''Return-Path: <a@x.io>'' @ LFonly @ js ''From: a@x.io'' @ LFLF @ js ''Hi'' @ LFLF @ js ''x''"
  let ?hdr = "js ''Return-Path: <a@x.io>'' @ LFonly @ js ''From: a@x.io''"
  have h: "sublist LFLF ?raw"
    by (simp add: js_def LFonly_def LFLF_def sublist_code)
  have t: "tokenize ?raw = Some (?hdr, js ''Hi'' @ LFLF @ js ''x'', LFonly)"
    by code_simp
  have p: "list_all plainLine (splitStr ?hdr LFonly)"
    by code_simp
  have f: "noLineBreak (js ''b@y.io'')" and d: "noLineBreak (js ''y.io'')"
    by code_simp+
  have j: "joinStr (rewriteLines (js ''y.io'') (js ''b@y.io'') (splitStr ?hdr LFonly)) LFonly
     = js ''From: '' @ [0x22] @ js ''a@x.io via y.io'' @ [0x22] @ js '' <b@y.io>'' @ LFonly
       @ js ''Reply-To: a@x.io''"
    by code_simp
  from h have "sublist CRLFCRLF ?raw \<or> sublist LFLF ?raw" by (rule disjI2)
  from rewriteEmail_body [OF this, of "js ''y.io''" "js ''b@y.io''" "js ''me@z.io''"]
  obtain hdr body lb where
    a: "tokenize ?raw = Some (hdr, body, lb)"
    and b: "rewriteEmail (js ''y.io'') ?raw (js ''b@y.io'') (js ''me@z.io'') =
       joinStr (rewriteLines (js ''y.io'') (js ''b@y.io'') (splitStr hdr lb)) lb @ lb @ lb @ body"
    and c: "list_all plainLine (splitStr hdr lb) \<and> noLineBreak (js ''b@y.io'') \<and> noLineBreak (js ''y.io'')
       \<longrightarrow> tokenize (rewriteEmail (js ''y.io'') ?raw (js ''b@y.io'') (js ''me@z.io'')) =
             Some (joinStr (rewriteLines (js ''y.io'') (js ''b@y.io'') (splitStr hdr lb)) lb, body, lb)"
    by blast
  from a t have e: "hdr = ?hdr" "body = js ''Hi'' @ LFLF @ js ''x''" "lb = LFonly" by simp_all
  from b have 1: "rewriteEmail (js ''y.io'') ?raw (js ''b@y.io'') (js ''me@z.io'')
     = js ''From: '' @ [0x22] @ js ''a@x.io via y.io'' @ [0x22] @ js '' <b@y.io>'' @ LFonly
       @ js ''Reply-To: a@x.io'' @ LFonly @ LFonly @ js ''Hi'' @ LFLF @ js ''x''"
    unfolding e by (simp only: j append_assoc)
  from c p f d have 2: "tokenize (rewriteEmail (js ''y.io'') ?raw (js ''b@y.io'') (js ''me@z.io''))
     = Some (js ''From: '' @ [0x22] @ js ''a@x.io via y.io'' @ [0x22] @ js '' <b@y.io>'' @ LFonly
             @ js ''Reply-To: a@x.io'', js ''Hi'' @ LFLF @ js ''x'', LFonly)"
    unfolding e by (simp only: j simp_thms)
  from h t p f d 1 2 show ?thesis by (intro conjI)
qed

text \<open>
  Claim C4, as stated, fails when the result is split at its own first boundary. In a
  message with the boundary LF LF, a \<^verbatim>\<open>Return-Path\<close> line between a line that ends
  with CR and a line that is CR alone is dropped, which leaves CR LF CR LF in the
  rewritten header text: the body of the input is \<^verbatim>\<open>body\<close>, the body of the result
  starts at \<^verbatim>\<open>C: d\<close>. A \<open>forwardFrom\<close> that contains LF LF moves the boundary in
  the same way.
\<close>

theorem rewriteEmail_body_counterexample:
  "tokenize (js ''A: b'' @ CRLF @ js ''Return-Path: <x@y.io>'' @ LFonly @ CRLF @ js ''C: d'' @ LFLF @ js ''body'')
     = Some (js ''A: b'' @ CRLF @ js ''Return-Path: <x@y.io>'' @ LFonly @ CRLF @ js ''C: d'', js ''body'', LFonly)
   \<and> rewriteEmail (js ''y.io'')
        (js ''A: b'' @ CRLF @ js ''Return-Path: <x@y.io>'' @ LFonly @ CRLF @ js ''C: d'' @ LFLF @ js ''body'')
        (js ''b@y.io'') (js ''me@z.io'')
     = js ''A: b'' @ CRLFCRLF @ js ''C: d'' @ LFLF @ js ''body''
   \<and> tokenize (rewriteEmail (js ''y.io'')
        (js ''A: b'' @ CRLF @ js ''Return-Path: <x@y.io>'' @ LFonly @ CRLF @ js ''C: d'' @ LFLF @ js ''body'')
        (js ''b@y.io'') (js ''me@z.io''))
     = Some (js ''A: b'', js ''C: d'' @ LFLF @ js ''body'', CRLF)
   \<and> js ''C: d'' @ LFLF @ js ''body'' \<noteq> js ''body''
   \<and> tokenize (js ''From: a@x.io'' @ LFLF @ js ''Hi'') = Some (js ''From: a@x.io'', js ''Hi'', LFonly)
   \<and> tokenize (rewriteEmail (js ''y.io'') (js ''From: a@x.io'' @ LFLF @ js ''Hi'')
        (js ''b'' @ LFLF @ js ''@y.io'') (js ''me@z.io''))
     = Some (js ''From: '' @ [0x22] @ js ''a@x.io via y.io'' @ [0x22] @ js '' <b'',
             js ''@y.io>'' @ LFonly @ js ''Reply-To: a@x.io'' @ LFLF @ js ''Hi'', LFonly)"
  by code_simp

text \<open>
  Claim C3, as amended (discovery of the original From value). The first loop assigns
  \<open>originalFrom\<close> at every line that matches \<^verbatim>\<open>/^From:\s/i\<close>, so it ends with the value
  of the last such line: the text after the colon and the white space that follows it,
  trimmed. It is empty when no line matches.
\<close>

theorem firstPass_originalFrom:
  "fst (firstPass lines) =
     (if filter (headerMatch ''From'') lines = [] then []
      else trim (stripFromPrefix (last (filter (headerMatch ''From'') lines))))"
  unfolding firstPass_def by (simp add: firstPass_fold)

theorem firstPass_originalFrom_witness:
  "fst (firstPass [js ''To: b@y.io'', js ''from:  Al <a@x.io> '', js ''Subject: From: me'']) =
     js ''Al <a@x.io>''
   \<and> fst (firstPass [js ''To: b@y.io'']) = []"
proof -
  have a: "(if filter (headerMatch ''From'')
               [js ''To: b@y.io'', js ''from:  Al <a@x.io> '', js ''Subject: From: me''] = [] then []
      else trim (stripFromPrefix (last (filter (headerMatch ''From'')
               [js ''To: b@y.io'', js ''from:  Al <a@x.io> '', js ''Subject: From: me''])))) =
       js ''Al <a@x.io>''"
    by code_simp
  have b: "(if filter (headerMatch ''From'') [js ''To: b@y.io''] = [] then []
      else trim (stripFromPrefix (last (filter (headerMatch ''From'') [js ''To: b@y.io''])))) = []"
    by code_simp
  from a b show ?thesis
    by (simp only: firstPass_originalFrom simp_thms)
qed

text \<open>
  Claim C3, as stated, fails with two From headers: the value captured is the one of
  the second header, not of the first.
\<close>

theorem firstPass_first_From_counterexample:
  "fst (firstPass [js ''From: a@x.io'', js ''From: b@y.io'']) = js ''b@y.io''
   \<and> trim (stripFromPrefix (js ''From: a@x.io'')) = js ''a@x.io''
   \<and> fst (firstPass [js ''From: a@x.io'', js ''From: b@y.io''])
       \<noteq> trim (stripFromPrefix (js ''From: a@x.io''))"
  by code_simp

text \<open>
  Claim C2, as amended (From synthesis). For a message with a boundary, every header
  line that matches \<^verbatim>\<open>/^From:\s/i\<close> (the name, the colon and a white space character)
  is replaced, at its place among the emitted lines, by the line
  \<^verbatim>\<open>From: "NAME via DOMAIN" <forwardFrom>\<close>, where NAME is the original display name when
  that is not empty and the original address otherwise; right after it comes the line
  \<^verbatim>\<open>Reply-To: \<close> followed by the original From value, exactly when no line of the
  input matches \<^verbatim>\<open>/^Reply-To:\s/i\<close> and the original address is not empty. The
  original From value, from which the name and the address are taken, is the trimmed
  value of this line when no later line matches \<^verbatim>\<open>/^From:\s/i\<close>, and of the last
  such line otherwise.
\<close>

theorem rewriteEmail_From:
  assumes "tokenize raw = Some (hdr, body, lb)"
    and "splitStr hdr lb = pre @ line # post"
    and "headerMatch ''From'' line"
    and "firstPass (splitStr hdr lb) = (originalFrom, hasReplyTo)"
    and "originalName = extractName originalFrom"
    and "originalEmail = extractEmail originalFrom"
  shows "rewriteEmail DOMAIN raw forwardFrom destination =
           joinStr
             (emitLines DOMAIN forwardFrom originalFrom hasReplyTo pre
              @ [js ''From: '' @ [0x22]
                 @ (if originalName \<noteq> [] then originalName else originalEmail)
                 @ js '' via '' @ DOMAIN @ [0x22] @ js '' <'' @ forwardFrom @ js ''>'']
              @ (if \<not> hasReplyTo \<and> originalEmail \<noteq> []
                 then [js ''Reply-To: '' @ originalFrom] else [])
              @ emitLines DOMAIN forwardFrom originalFrom hasReplyTo post)
             lb
           @ lb @ lb @ body
         \<and> (hasReplyTo \<longleftrightarrow> (\<exists>l \<in> set (splitStr hdr lb). headerMatch ''Reply-To'' l))
         \<and> (if filter (headerMatch ''From'') post = []
            then originalFrom = trim (stripFromPrefix line)
            else originalFrom = trim (stripFromPrefix (last (filter (headerMatch ''From'') post))))"
proof -
  from assms(4) have oF: "originalFrom = fst (firstPass (splitStr hdr lb))"
    and hR: "hasReplyTo = snd (firstPass (splitStr hdr lb))"
    by simp_all
  have fh: "fromHeader DOMAIN forwardFrom originalName originalEmail =
      js ''From: '' @ [0x22] @ (if originalName \<noteq> [] then originalName else originalEmail)
        @ js '' via '' @ DOMAIN @ [0x22] @ js '' <'' @ forwardFrom @ js ''>''"
    by (simp add: fromHeader_def Let_def)
  have "rewriteLines DOMAIN forwardFrom (splitStr hdr lb) =
          emitLines DOMAIN forwardFrom originalFrom hasReplyTo (pre @ line # post)"
    by (simp add: rewriteLines_def oF hR assms(2) [symmetric])
  also have "\<dots> = emitLines DOMAIN forwardFrom originalFrom hasReplyTo pre
        @ [fromHeader DOMAIN forwardFrom originalName originalEmail]
        @ (if \<not> hasReplyTo \<and> originalEmail \<noteq> [] then [replyToHeader originalFrom] else [])
        @ emitLines DOMAIN forwardFrom originalFrom hasReplyTo post"
    unfolding assms(5,6) by (rule emitLines_From [OF assms(3)])
  finally have lines: "rewriteLines DOMAIN forwardFrom (splitStr hdr lb) =
      emitLines DOMAIN forwardFrom originalFrom hasReplyTo pre
        @ [js ''From: '' @ [0x22] @ (if originalName \<noteq> [] then originalName else originalEmail)
           @ js '' via '' @ DOMAIN @ [0x22] @ js '' <'' @ forwardFrom @ js ''>'']
        @ (if \<not> hasReplyTo \<and> originalEmail \<noteq> [] then [js ''Reply-To: '' @ originalFrom] else [])
        @ emitLines DOMAIN forwardFrom originalFrom hasReplyTo post"
    by (simp only: fh replyToHeader_def)
  have fp: "firstPass (splitStr hdr lb) =
     ((if filter (headerMatch ''From'') (splitStr hdr lb) = [] then []
       else trim (stripFromPrefix (last (filter (headerMatch ''From'') (splitStr hdr lb))))),
      (\<exists>l \<in> set (splitStr hdr lb). headerMatch ''Reply-To'' l))"
    unfolding firstPass_def by (simp add: firstPass_fold)
  from fp hR have 2: "hasReplyTo \<longleftrightarrow> (\<exists>l \<in> set (splitStr hdr lb). headerMatch ''Reply-To'' l)"
    by simp
  from fp oF assms(2,3) have 3: "if filter (headerMatch ''From'') post = []
            then originalFrom = trim (stripFromPrefix line)
            else originalFrom = trim (stripFromPrefix (last (filter (headerMatch ''From'') post)))"
    by simp
  from rewriteEmail_tokenize(1) [OF assms(1)] lines 2 3 show ?thesis
    by simp
qed

theorem rewriteEmail_From_witness:
  "tokenize (js ''From: Al <a@x.io>'' @ CRLF @ js ''To: b@y.io'' @ CRLFCRLF @ js ''Hi'')
     = Some (js ''From: Al <a@x.io>'' @ CRLF @ js ''To: b@y.io'', js ''Hi'', CRLF)
   \<and> splitStr (js ''From: Al <a@x.io>'' @ CRLF @ js ''To: b@y.io'') CRLF
     = [] @ js ''From: Al <a@x.io>'' # [js ''To: b@y.io'']
   \<and> headerMatch ''From'' (js ''From: Al <a@x.io>'')
   \<and> firstPass (splitStr (js ''From: Al <a@x.io>'' @ CRLF @ js ''To: b@y.io'') CRLF)
     = (js ''Al <a@x.io>'', False)
   \<and> extractName (js ''Al <a@x.io>'') = js ''Al''
   \<and> extractEmail (js ''Al <a@x.io>'') = js ''a@x.io''
   \<and> rewriteEmail (js ''y.io'')
        (js ''From: Al <a@x.io>'' @ CRLF @ js ''To: b@y.io'' @ CRLFCRLF @ js ''Hi'')
        (js ''b@y.io'') (js ''me@z.io'')
     = js ''From: '' @ [0x22] @ js ''Al via y.io'' @ [0x22] @ js '' <b@y.io>'' @ CRLF
       @ js ''Reply-To: Al <a@x.io>'' @ CRLF @ js ''To: b@y.io'' @ CRLFCRLF @ js ''Hi''"
proof -
  have t: "tokenize (js ''From: Al <a@x.io>'' @ CRLF @ js ''To: b@y.io'' @ CRLFCRLF @ js ''Hi'')
     = Some (js ''From: Al <a@x.io>'' @ CRLF @ js ''To: b@y.io'', js ''Hi'', CRLF)"
    by code_simp
  have s: "splitStr (js ''From: Al <a@x.io>'' @ CRLF @ js ''To: b@y.io'') CRLF
     = [] @ js ''From: Al <a@x.io>'' # [js ''To: b@y.io'']"
    by code_simp
  have m: "headerMatch ''From'' (js ''From: Al <a@x.io>'')"
    by code_simp
  have f: "firstPass (splitStr (js ''From: Al <a@x.io>'' @ CRLF @ js ''To: b@y.io'') CRLF)
     = (js ''Al <a@x.io>'', False)"
    by code_simp
  have n: "js ''Al'' = extractName (js ''Al <a@x.io>'')"
    by code_simp
  have e: "js ''a@x.io'' = extractEmail (js ''Al <a@x.io>'')"
    by code_simp
  have r: "joinStr
             (emitLines (js ''y.io'') (js ''b@y.io'') (js ''Al <a@x.io>'') False []
              @ [js ''From: '' @ [0x22]
                 @ (if js ''Al'' \<noteq> [] then js ''Al'' else js ''a@x.io'')
                 @ js '' via '' @ js ''y.io'' @ [0x22] @ js '' <'' @ js ''b@y.io'' @ js ''>'']
              @ (if \<not> False \<and> js ''a@x.io'' \<noteq> []
                 then [js ''Reply-To: '' @ js ''Al <a@x.io>''] else [])
              @ emitLines (js ''y.io'') (js ''b@y.io'') (js ''Al <a@x.io>'') False [js ''To: b@y.io''])
             CRLF
           @ CRLF @ CRLF @ js ''Hi''
     = js ''From: '' @ [0x22] @ js ''Al via y.io'' @ [0x22] @ js '' <b@y.io>'' @ CRLF
       @ js ''Reply-To: Al <a@x.io>'' @ CRLF @ js ''To: b@y.io'' @ CRLFCRLF @ js ''Hi''"
    by code_simp
  from rewriteEmail_From [OF t s m f n e, of "js ''y.io''" "js ''b@y.io''" "js ''me@z.io''"]
  have "rewriteEmail (js ''y.io'')
        (js ''From: Al <a@x.io>'' @ CRLF @ js ''To: b@y.io'' @ CRLFCRLF @ js ''Hi'')
        (js ''b@y.io'') (js ''me@z.io'')
     = js ''From: '' @ [0x22] @ js ''Al via y.io'' @ [0x22] @ js '' <b@y.io>'' @ CRLF
       @ js ''Reply-To: Al <a@x.io>'' @ CRLF @ js ''To: b@y.io'' @ CRLFCRLF @ js ''Hi''"
    by (simp only: r)
  with t s m f n e show ?thesis by (simp only: simp_thms)
qed

text \<open>
  Claim C2, as stated, fails on a From header with no white space after the colon: the
  line is not replaced and the message comes back as it was. It also fails with two
  From headers: the first is replaced by a line built from the value of the second.
\<close>

theorem rewriteEmail_From_counterexample:
  "hasName ''From'' (js ''From:a@x.io'')
   \<and> rewriteEmail (js ''y.io'')
        (js ''From:a@x.io'' @ CRLF @ js ''To: b@y.io'' @ CRLFCRLF @ js ''Hi'')
        (js ''b@y.io'') (js ''me@z.io'')
     = js ''From:a@x.io'' @ CRLF @ js ''To: b@y.io'' @ CRLFCRLF @ js ''Hi''
   \<and> rewriteEmail (js ''y.io'')
        (js ''From: Al <a@x.io>'' @ LFonly @ js ''From: Bo <b@z.io>'' @ LFLF @ js ''Hi'')
        (js ''b@y.io'') (js ''me@z.io'')
     = js ''From: '' @ [0x22] @ js ''Bo via y.io'' @ [0x22] @ js '' <b@y.io>'' @ LFonly
       @ js ''Reply-To: Bo <b@z.io>'' @ LFonly
       @ js ''From: '' @ [0x22] @ js ''Bo via y.io'' @ [0x22] @ js '' <b@y.io>'' @ LFonly
       @ js ''Reply-To: Bo <b@z.io>'' @ LFLF @ js ''Hi''"
  by code_simp




text \<open>
  Claim C10 (a name and a colon without white space). A header line that starts with
  one of the four names and a colon, ignoring case, with no white space character right
  after the colon, matches none of the four patterns; the first loop leaves
  \<open>originalFrom\<close> and \<open>hasReplyTo\<close> as they are without the line; and the line is
  emitted unchanged at its place.
\<close>

theorem rewriteEmail_name_without_space:
  assumes "name \<in> headerNames" and "nameColonNoSpace name line"
    and "tokenize raw = Some (hdr, body, lb)"
    and "splitStr hdr lb = pre @ line # post"
    and "firstPass (pre @ post) = (originalFrom, hasReplyTo)"
  shows "\<not> headerMatch ''From'' line \<and> \<not> headerMatch ''Reply-To'' line
       \<and> \<not> headerMatch ''DKIM-Signature'' line \<and> \<not> headerMatch ''Return-Path'' line
       \<and> firstPass (splitStr hdr lb) = (originalFrom, hasReplyTo)
       \<and> rewriteEmail DOMAIN raw forwardFrom destination =
           joinStr
             (emitLines DOMAIN forwardFrom originalFrom hasReplyTo pre
              @ [line]
              @ emitLines DOMAIN forwardFrom originalFrom hasReplyTo post)
             lb
           @ lb @ lb @ body"
proof -
  note u = unrecognised_line [OF assms(1,2)]
  note n = u(1-4)
  from firstPass_skip [OF n(1,2)] assms(4,5)
  have fp: "firstPass (splitStr hdr lb) = (originalFrom, hasReplyTo)" by simp
  then have "rewriteLines DOMAIN forwardFrom (splitStr hdr lb) =
      emitLines DOMAIN forwardFrom originalFrom hasReplyTo (pre @ line # post)"
    by (simp add: rewriteLines_def assms(4) [symmetric])
  also have "\<dots> = emitLines DOMAIN forwardFrom originalFrom hasReplyTo pre @ [line]
      @ emitLines DOMAIN forwardFrom originalFrom hasReplyTo post"
    by (rule emitLines_kept [OF u])
  finally have "rewriteLines DOMAIN forwardFrom (splitStr hdr lb) =
      emitLines DOMAIN forwardFrom originalFrom hasReplyTo pre @ [line]
      @ emitLines DOMAIN forwardFrom originalFrom hasReplyTo post" .
  with rewriteEmail_tokenize(1) [OF assms(3)] n fp show ?thesis by simp
qed

theorem rewriteEmail_name_without_space_witness:
  "''Reply-To'' \<in> headerNames
   \<and> nameColonNoSpace ''Reply-To'' (js ''Reply-To:c@z.io'')
   \<and> tokenize (js ''From: a@x.io'' @ LFonly @ js ''Reply-To:c@z.io'' @ LFLF @ js ''Hi'')
     = Some (js ''From: a@x.io'' @ LFonly @ js ''Reply-To:c@z.io'', js ''Hi'', LFonly)
   \<and> splitStr (js ''From: a@x.io'' @ LFonly @ js ''Reply-To:c@z.io'') LFonly
     = [js ''From: a@x.io''] @ js ''Reply-To:c@z.io'' # []
   \<and> firstPass ([js ''From: a@x.io''] @ []) = (js ''a@x.io'', False)
   \<and> rewriteEmail (js ''y.io'')
        (js ''From: a@x.io'' @ LFonly @ js ''Reply-To:c@z.io'' @ LFLF @ js ''Hi'')
        (js ''b@y.io'') (js ''me@z.io'')
     = js ''From: '' @ [0x22] @ js ''a@x.io via y.io'' @ [0x22] @ js '' <b@y.io>'' @ LFonly
       @ js ''Reply-To: a@x.io'' @ LFonly @ js ''Reply-To:c@z.io'' @ LFonly @ LFonly @ js ''Hi''"
proof -
  have a: "''Reply-To'' \<in> headerNames"
    by (simp add: headerNames_def)
  have b: "nameColonNoSpace ''Reply-To'' (js ''Reply-To:c@z.io'')"
    by code_simp
  have t: "tokenize (js ''From: a@x.io'' @ LFonly @ js ''Reply-To:c@z.io'' @ LFLF @ js ''Hi'')
     = Some (js ''From: a@x.io'' @ LFonly @ js ''Reply-To:c@z.io'', js ''Hi'', LFonly)"
    by code_simp
  have s: "splitStr (js ''From: a@x.io'' @ LFonly @ js ''Reply-To:c@z.io'') LFonly
     = [js ''From: a@x.io''] @ js ''Reply-To:c@z.io'' # []"
    by code_simp
  have f: "firstPass ([js ''From: a@x.io''] @ []) = (js ''a@x.io'', False)"
    by code_simp
  have r: "joinStr
             (emitLines (js ''y.io'') (js ''b@y.io'') (js ''a@x.io'') False [js ''From: a@x.io'']
              @ [js ''Reply-To:c@z.io'']
              @ emitLines (js ''y.io'') (js ''b@y.io'') (js ''a@x.io'') False [])
             LFonly
           @ LFonly @ LFonly @ js ''Hi''
     = js ''From: '' @ [0x22] @ js ''a@x.io via y.io'' @ [0x22] @ js '' <b@y.io>'' @ LFonly
       @ js ''Reply-To: a@x.io'' @ LFonly @ js ''Reply-To:c@z.io'' @ LFonly @ LFonly @ js ''Hi''"
    by code_simp
  note th = rewriteEmail_name_without_space [OF a b t s f, of "js ''y.io''" "js ''b@y.io''" "js ''me@z.io''"]
  from th have "rewriteEmail (js ''y.io'')
        (js ''From: a@x.io'' @ LFonly @ js ''Reply-To:c@z.io'' @ LFLF @ js ''Hi'')
        (js ''b@y.io'') (js ''me@z.io'')
     = js ''From: '' @ [0x22] @ js ''a@x.io via y.io'' @ [0x22] @ js '' <b@y.io>'' @ LFonly
       @ js ''Reply-To: a@x.io'' @ LFonly @ js ''Reply-To:c@z.io'' @ LFonly @ LFonly @ js ''Hi''"
    by (simp only: r)
  with a b t s f show ?thesis by (intro conjI)
qed

text \<open>
  Claim C1 (DKIM-Signature and its continuation lines) fails on the end-to-end scenario
  of the specification: the \<^verbatim>\<open>DKIM-Signature\<close> line is dropped, but its continuation
  line, a tab followed by \<^verbatim>\<open>real-continuation\<close>, stays in the output. The second loop
  drops a line that starts with white space only after the marker \<open>SKIP\<close>, which no
  branch pushes.
\<close>

theorem rewriteEmail_DKIM_continuation_kept:
  "rewriteEmail (js ''example.com'')
     (js ''From: Alice <alice@x.com>'' @ CRLF @ js ''To: hello@example.com'' @ CRLF
      @ js ''DKIM-Signature: xyz'' @ CRLF @ [0x09] @ js ''real-continuation'' @ CRLFCRLF
      @ js ''Hi there'')
     (js ''hello@example.com'') (js ''you@gmail.com'')
   = js ''From: '' @ [0x22] @ js ''Alice via example.com'' @ [0x22] @ js '' <hello@example.com>'' @ CRLF
     @ js ''Reply-To: Alice <alice@x.com>'' @ CRLF
     @ js ''To: hello@example.com'' @ CRLF
     @ [0x09] @ js ''real-continuation'' @ CRLFCRLF
     @ js ''Hi there''"
  by code_simp

section \<open>The SMTP credentials resource: the derived password\<close>

lemma length_bytes32: "length (bytes32 w) = 4"
  by (simp add: bytes32_def)

lemma length_sha256: "length (sha256 msg) = 32"
  by (simp add: sha256_def length_bytes32 split: prod.splits)

lemma length_hmacSha256: "length (hmacSha256 key msg) = 32"
  by (simp add: hmacSha256_def Let_def length_sha256)

lemma length_base64Alphabet: "length base64Alphabet = 64"
  by (simp add: base64Alphabet_def)

lemma distinct_base64Alphabet: "distinct base64Alphabet"
  by (simp add: base64Alphabet_def)

lemma pad_not_in_base64Alphabet: "CHR ''='' \<notin> set base64Alphabet"
  by (simp add: base64Alphabet_def)

lemma base64Value_base64Char:
  assumes "n < 64"
  shows "base64Value (base64Char n) = Some n"
proof -
  have "map_of (zip base64Alphabet [0..<64]) (base64Alphabet ! n) = Some ([0..<64] ! n)"
    by (rule map_of_zip_nth) (use assms in \<open>simp_all add: length_base64Alphabet distinct_base64Alphabet\<close>)
  with assms show ?thesis
    by (simp add: base64Value_def base64Char_def)
qed

lemma base64Char_not_pad:
  assumes "n < 64"
  shows "base64Char n \<noteq> CHR ''=''"
proof -
  from assms have "base64Alphabet ! n \<in> set base64Alphabet"
    by (simp add: length_base64Alphabet)
  with pad_not_in_base64Alphabet show ?thesis
    by (auto simp: base64Char_def)
qed

lemma unat_byte_less: "unat (a :: byte) < 256"
  using unsigned_less [of a, where 'a = nat] by simp

lemma hi_lo:
  fixes x k m :: nat
  assumes "x < k"
  shows "(m * k + x) div k = m" and "(m * k + x) mod k = x"
  using assms by simp_all

lemma sextets:
  fixes a b c :: nat
  assumes "a < 256" "b < 256" "c < 256"
  shows "a div 4 < 64" "a mod 4 * 16 + b div 16 < 64" "b mod 16 * 4 + c div 64 < 64" "c mod 64 < 64"
    "a mod 4 * 16 < 64" "b mod 16 * 4 < 64"
    "a div 4 * 4 + (a mod 4 * 16 + b div 16) div 16 = a"
    "(a mod 4 * 16 + b div 16) mod 16 * 16 + (b mod 16 * 4 + c div 64) div 4 = b"
    "(b mod 16 * 4 + c div 64) mod 4 * 64 + c mod 64 = c"
    "a div 4 * 4 + (a mod 4 * 16) div 16 = a" "(a mod 4 * 16) mod 16 = 0"
    "(a mod 4 * 16 + b div 16) mod 16 * 16 + (b mod 16 * 4) div 4 = b" "(b mod 16 * 4) mod 4 = 0"
proof -
  from assms have d: "a div 4 < 64" "b div 16 < 16" "c div 64 < 4"
    by simp_all
  have m: "a mod 4 < 4" "b mod 16 < 16" "c mod 64 < 64"
    by simp_all
  show "a div 4 < 64" by (rule d)
  from m(1) d(2) show "a mod 4 * 16 + b div 16 < 64" by linarith
  from m(2) d(3) show "b mod 16 * 4 + c div 64 < 64" by linarith
  show "c mod 64 < 64" by (rule m)
  from m(1) show "a mod 4 * 16 < 64" by linarith
  from m(2) show "b mod 16 * 4 < 64" by linarith
  have 1: "(a mod 4 * 16 + b div 16) div 16 = a mod 4" by (rule hi_lo(1) [OF d(2)])
  have 2: "(a mod 4 * 16 + b div 16) mod 16 = b div 16" by (rule hi_lo(2) [OF d(2)])
  have 3: "(b mod 16 * 4 + c div 64) div 4 = b mod 16" by (rule hi_lo(1) [OF d(3)])
  have 4: "(b mod 16 * 4 + c div 64) mod 4 = c div 64" by (rule hi_lo(2) [OF d(3)])
  show "a div 4 * 4 + (a mod 4 * 16 + b div 16) div 16 = a"
    by (simp only: 1 div_mult_mod_eq)
  show "(a mod 4 * 16 + b div 16) mod 16 * 16 + (b mod 16 * 4 + c div 64) div 4 = b"
    by (simp only: 2 3 div_mult_mod_eq)
  show "(b mod 16 * 4 + c div 64) mod 4 * 64 + c mod 64 = c"
    by (simp only: 4 div_mult_mod_eq)
  have 5: "(a mod 4 * 16) div 16 = a mod 4" "(a mod 4 * 16) mod 16 = 0"
    "(b mod 16 * 4) div 4 = b mod 16" "(b mod 16 * 4) mod 4 = 0"
    by simp_all
  show "a div 4 * 4 + (a mod 4 * 16) div 16 = a"
    by (simp only: 5 div_mult_mod_eq)
  show "(a mod 4 * 16) mod 16 = 0" by (rule 5)
  show "(a mod 4 * 16 + b div 16) mod 16 * 16 + (b mod 16 * 4) div 4 = b"
    by (simp only: 2 5 div_mult_mod_eq)
  show "(b mod 16 * 4) mod 4 = 0" by (rule 5)
qed

lemma decode_quad:
  assumes "n1 < 64" "n2 < 64" "n3 < 64" "n4 < 64"
  shows "base64Decode (base64Char n1 # base64Char n2 # base64Char n3 # base64Char n4 # rest) =
           map_option
             (\<lambda>bs. of_nat (n1 * 4 + n2 div 16) # of_nat (n2 mod 16 * 16 + n3 div 4)
                    # of_nat (n3 mod 4 * 64 + n4) # bs)
             (base64Decode rest)"
  using assms by (simp add: base64Value_base64Char base64Char_not_pad)

lemma decode_pad1:
  assumes "n1 < 64" "n2 < 64" "n3 < 64" "n3 mod 4 = 0"
  shows "base64Decode [base64Char n1, base64Char n2, base64Char n3, CHR ''=''] =
           Some [of_nat (n1 * 4 + n2 div 16), of_nat (n2 mod 16 * 16 + n3 div 4)]"
  using assms by (simp add: base64Value_base64Char base64Char_not_pad)

lemma decode_pad2:
  assumes "n1 < 64" "n2 < 64" "n2 mod 16 = 0"
  shows "base64Decode [base64Char n1, base64Char n2, CHR ''='', CHR ''=''] =
           Some [of_nat (n1 * 4 + n2 div 16)]"
  using assms by (simp add: base64Value_base64Char)

lemma base64Decode_base64: "base64Decode (base64 bs) = Some bs"
proof (induction bs rule: base64.induct)
  case 1
  then show ?case by simp
next
  case (2 a)
  note s = sextets [OF unat_byte_less [of a] unat_byte_less [of a] unat_byte_less [of a]]
  note d = decode_pad2 [of "unat a div 4" "unat a mod 4 * 16", OF s(1) s(5) s(11)]
  have "base64Decode (base64 [a]) = Some [of_nat (unat a div 4 * 4 + (unat a mod 4 * 16) div 16)]"
    by (simp only: base64.simps d)
  also have "\<dots> = Some [a]"
    by (simp only: s(10) of_nat_unat ucast_id)
  finally show ?case .
next
  case (3 a b)
  note s = sextets [OF unat_byte_less [of a] unat_byte_less [of b] unat_byte_less [of b]]
  note d = decode_pad1 [of "unat a div 4" "unat a mod 4 * 16 + unat b div 16" "unat b mod 16 * 4",
      OF s(1) s(2) s(6) s(13)]
  have "base64Decode (base64 [a, b]) =
      Some [of_nat (unat a div 4 * 4 + (unat a mod 4 * 16 + unat b div 16) div 16),
            of_nat ((unat a mod 4 * 16 + unat b div 16) mod 16 * 16 + (unat b mod 16 * 4) div 4)]"
    by (simp only: base64.simps d)
  also have "\<dots> = Some [a, b]"
    by (simp only: s(7) s(12) of_nat_unat ucast_id)
  finally show ?case .
next
  case (4 a b c rest)
  note s = sextets [OF unat_byte_less [of a] unat_byte_less [of b] unat_byte_less [of c]]
  note d = decode_quad [of "unat a div 4" "unat a mod 4 * 16 + unat b div 16"
      "unat b mod 16 * 4 + unat c div 64" "unat c mod 64" "base64 rest", OF s(1) s(2) s(3) s(4)]
  have "base64Decode (base64 (a # b # c # rest)) =
      map_option
        (\<lambda>bs. of_nat (unat a div 4 * 4 + (unat a mod 4 * 16 + unat b div 16) div 16)
           # of_nat ((unat a mod 4 * 16 + unat b div 16) mod 16 * 16
                     + (unat b mod 16 * 4 + unat c div 64) div 4)
           # of_nat ((unat b mod 16 * 4 + unat c div 64) mod 4 * 64 + unat c mod 64) # bs)
        (base64Decode (base64 rest))"
    by (simp only: base64.simps append.simps d)
  also have "\<dots> = Some (a # b # c # rest)"
    by (simp only: s(7) s(8) s(9) of_nat_unat ucast_id "4.IH" option.map)
  finally show ?case .
qed

text \<open>
  Claim C7 (the derived password). \<open>calculateSmtpPassword\<close> is a function of the secret
  key and the region, so equal arguments give equal results. Its result is the base64
  text of the byte 0x04 followed by the digest that ends the chain of five HMAC-SHA256
  steps over \<^verbatim>\<open>11111111\<close>, the region, \<^verbatim>\<open>ses\<close>, \<^verbatim>\<open>aws4_request\<close> and
  \<^verbatim>\<open>SendRawEmail\<close>, starting from the key \<^verbatim>\<open>AWS4\<close> followed by the secret key. That digest
  has 32 bytes, and the result decodes from base64 to those 33 bytes, the first being
  0x04.
\<close>

theorem calculateSmtpPassword_format:
  "calculateSmtpPassword secretKey region = base64 (0x04 # kChain secretKey region)
   \<and> length (kChain secretKey region) = 32
   \<and> base64Decode (calculateSmtpPassword secretKey region) = Some (0x04 # kChain secretKey region)
   \<and> length (0x04 # kChain secretKey region) = 33"
proof -
  have c: "calculateSmtpPassword secretKey region = base64 (0x04 # kChain secretKey region)"
    by (simp add: calculateSmtpPassword_def kChain_def Let_def)
  have l: "length (kChain secretKey region) = 32"
    by (simp add: kChain_def length_hmacSha256)
  from c l show ?thesis
    by (simp add: base64Decode_base64)
qed

section \<open>The SMTP credentials resource: the lifecycle\<close>

text \<open>
  Claim C8 (Delete). For a Delete request the handler sends one delete command. When
  the client throws \<open>ResourceNotFoundException\<close> the handler returns its result and
  the state is the one the client left; anything else the client throws is thrown on;
  a successful deletion returns the result. With the secret store: an absent secret gives
  the result and leaves the secrets as they were, a present one is removed.
\<close>

theorem handler_Delete:
  assumes "RequestType event = Delete"
  shows
    "(send (DeleteSecretCommand (SecretName (ResourceProperties event)) True) st
        = (Inl ResourceNotFoundException, st')
      \<longrightarrow> handler send event st = (Inr (physicalId event), st'))
   \<and> (send (DeleteSecretCommand (SecretName (ResourceProperties event)) True) st = (Inl e, st')
        \<and> e \<noteq> ResourceNotFoundException
      \<longrightarrow> handler send event st = (Inl e, st'))
   \<and> (send (DeleteSecretCommand (SecretName (ResourceProperties event)) True) st = (Inr u, st')
      \<longrightarrow> handler send event st = (Inr (physicalId event), st'))
   \<and> (secrets store (SecretName (ResourceProperties event)) = None
      \<longrightarrow> handler storeSend event store =
            (Inr (physicalId event),
             store\<lparr>received := received store
                       @ [DeleteSecretCommand (SecretName (ResourceProperties event)) True]\<rparr>))
   \<and> (secrets store (SecretName (ResourceProperties event)) \<noteq> None
      \<longrightarrow> handler storeSend event store =
            (Inr (physicalId event),
             store\<lparr>received := received store
                       @ [DeleteSecretCommand (SecretName (ResourceProperties event)) True],
                   secrets := (secrets store)(SecretName (ResourceProperties event) := None)\<rparr>))"
  using assms by (auto simp: handler_def storeSend_def)

theorem handler_Delete_witness:
  "RequestType \<lparr>RequestType = Delete, ResourceProperties = exampleProperties\<rparr> = Delete
   \<and> handler storeSend \<lparr>RequestType = Delete, ResourceProperties = exampleProperties\<rparr>
        \<lparr>secrets = Map.empty, received = []\<rparr>
      = (Inr ''smtp-creds-EmailForwarding/smtp-credentials'',
         \<lparr>secrets = Map.empty,
          received = [DeleteSecretCommand ''EmailForwarding/smtp-credentials'' True]\<rparr>)
   \<and> handler storeSend \<lparr>RequestType = Delete, ResourceProperties = exampleProperties\<rparr>
        \<lparr>secrets = [''EmailForwarding/smtp-credentials'' \<mapsto> ''old''], received = []\<rparr>
      = (Inr ''smtp-creds-EmailForwarding/smtp-credentials'',
         \<lparr>secrets = Map.empty,
          received = [DeleteSecretCommand ''EmailForwarding/smtp-credentials'' True]\<rparr>)
   \<and> handler (\<lambda>cmd st. (Inl (OtherException ''AccessDeniedException''), st))
        \<lparr>RequestType = Delete, ResourceProperties = exampleProperties\<rparr>
        \<lparr>secrets = [''EmailForwarding/smtp-credentials'' \<mapsto> ''old''], received = []\<rparr>
      = (Inl (OtherException ''AccessDeniedException''),
         \<lparr>secrets = [''EmailForwarding/smtp-credentials'' \<mapsto> ''old''], received = []\<rparr>)
   \<and> handler (\<lambda>cmd st. (Inl ResourceNotFoundException, st))
        \<lparr>RequestType = Delete, ResourceProperties = exampleProperties\<rparr> (0::nat)
      = (Inr ''smtp-creds-EmailForwarding/smtp-credentials'', 0)
   \<and> handler (\<lambda>cmd st. (Inr (), Suc st))
        \<lparr>RequestType = Delete, ResourceProperties = exampleProperties\<rparr> (0::nat)
      = (Inr ''smtp-creds-EmailForwarding/smtp-credentials'', 1)"
proof -
  let ?ev = "\<lparr>RequestType = Delete, ResourceProperties = exampleProperties\<rparr>"
  have d: "RequestType ?ev = Delete" by simp
  have n: "SecretName exampleProperties = ''EmailForwarding/smtp-credentials''"
    by (simp add: exampleProperties_def)
  have p: "physicalId ?ev = ''smtp-creds-EmailForwarding/smtp-credentials''"
    by (simp add: physicalId_def n)
  note t = handler_Delete [OF d]
  from t [where send = storeSend and store = "\<lparr>secrets = Map.empty, received = []\<rparr>"]
  have 1: "handler storeSend ?ev \<lparr>secrets = Map.empty, received = []\<rparr>
      = (Inr ''smtp-creds-EmailForwarding/smtp-credentials'',
         \<lparr>secrets = Map.empty,
          received = [DeleteSecretCommand ''EmailForwarding/smtp-credentials'' True]\<rparr>)"
    by (simp add: n p)
  from t [where send = storeSend and store =
      "\<lparr>secrets = [''EmailForwarding/smtp-credentials'' \<mapsto> ''old''], received = []\<rparr>"]
  have 2: "handler storeSend ?ev
        \<lparr>secrets = [''EmailForwarding/smtp-credentials'' \<mapsto> ''old''], received = []\<rparr>
      = (Inr ''smtp-creds-EmailForwarding/smtp-credentials'',
         \<lparr>secrets = Map.empty,
          received = [DeleteSecretCommand ''EmailForwarding/smtp-credentials'' True]\<rparr>)"
    by (simp add: n p)
  from t [where send = "\<lambda>cmd st. (Inl (OtherException ''AccessDeniedException''), st)"
      and st = "\<lparr>secrets = [''EmailForwarding/smtp-credentials'' \<mapsto> ''old''], received = []\<rparr>"
      and st' = "\<lparr>secrets = [''EmailForwarding/smtp-credentials'' \<mapsto> ''old''], received = []\<rparr>"
      and e = "OtherException ''AccessDeniedException''"]
  have 3: "handler (\<lambda>cmd st. (Inl (OtherException ''AccessDeniedException''), st)) ?ev
        \<lparr>secrets = [''EmailForwarding/smtp-credentials'' \<mapsto> ''old''], received = []\<rparr>
      = (Inl (OtherException ''AccessDeniedException''),
         \<lparr>secrets = [''EmailForwarding/smtp-credentials'' \<mapsto> ''old''], received = []\<rparr>)"
    by simp
  from t [where send = "\<lambda>cmd st. (Inl ResourceNotFoundException, st)" and st = "0::nat" and st' = 0]
  have 4: "handler (\<lambda>cmd st. (Inl ResourceNotFoundException, st)) ?ev (0::nat)
      = (Inr ''smtp-creds-EmailForwarding/smtp-credentials'', 0)"
    by (simp add: p)
  from t [where send = "\<lambda>cmd st. (Inr (), Suc st)" and st = "0::nat" and st' = "Suc 0" and u = "()"]
  have 5: "handler (\<lambda>cmd st. (Inr (), Suc st)) ?ev (0::nat)
      = (Inr ''smtp-creds-EmailForwarding/smtp-credentials'', 1)"
    by (simp add: p)
  from d 1 2 3 4 5 show ?thesis by (intro conjI)
qed

text \<open>
  Claim C9 (Create or Update). For a request that is not Delete, run against the secret
  store, the handler returns its result and the store ends with the named secret present
  with the secret value, the other secrets unchanged; the store received the put
  command alone when the secret existed, and the put command followed by the create
  command with the same value when it did not. Over any client: a put that succeeds is
  followed by no other command; a put that throws \<open>ResourceNotFoundException\<close> is
  followed by the create command, whose outcome is the handler's; anything else the put
  throws is thrown on.
\<close>

theorem handler_Create_Update:
  assumes "RequestType event \<noteq> Delete"
  shows
    "handler storeSend event store =
       (Inr (physicalId event),
        \<lparr>secrets = (secrets store)(SecretName (ResourceProperties event) \<mapsto> secretValue event),
         received = received store
           @ (if secrets store (SecretName (ResourceProperties event)) = None
              then [PutSecretValueCommand (SecretName (ResourceProperties event)) (secretValue event),
                    CreateSecretCommand (SecretName (ResourceProperties event)) (secretValue event)
                      (secretDescription event)]
              else [PutSecretValueCommand (SecretName (ResourceProperties event)) (secretValue event)])\<rparr>)
   \<and> (send (PutSecretValueCommand (SecretName (ResourceProperties event)) (secretValue event)) st
        = (Inr u, st')
      \<longrightarrow> handler send event st = (Inr (physicalId event), st'))
   \<and> (send (PutSecretValueCommand (SecretName (ResourceProperties event)) (secretValue event)) st
        = (Inl ResourceNotFoundException, st')
        \<and> send (CreateSecretCommand (SecretName (ResourceProperties event)) (secretValue event)
                  (secretDescription event)) st' = (Inr u, st'')
      \<longrightarrow> handler send event st = (Inr (physicalId event), st''))
   \<and> (send (PutSecretValueCommand (SecretName (ResourceProperties event)) (secretValue event)) st
        = (Inl ResourceNotFoundException, st')
        \<and> send (CreateSecretCommand (SecretName (ResourceProperties event)) (secretValue event)
                  (secretDescription event)) st' = (Inl e, st'')
      \<longrightarrow> handler send event st = (Inl e, st''))
   \<and> (send (PutSecretValueCommand (SecretName (ResourceProperties event)) (secretValue event)) st
        = (Inl e, st')
        \<and> e \<noteq> ResourceNotFoundException
      \<longrightarrow> handler send event st = (Inl e, st'))"
proof -
  have "handler storeSend event store =
       (Inr (physicalId event),
        \<lparr>secrets = (secrets store)(SecretName (ResourceProperties event) \<mapsto> secretValue event),
         received = received store
           @ (if secrets store (SecretName (ResourceProperties event)) = None
              then [PutSecretValueCommand (SecretName (ResourceProperties event)) (secretValue event),
                    CreateSecretCommand (SecretName (ResourceProperties event)) (secretValue event)
                      (secretDescription event)]
              else [PutSecretValueCommand (SecretName (ResourceProperties event)) (secretValue event)])\<rparr>)"
    using assms by (cases store) (auto simp: handler_def storeSend_def Let_def)
  moreover have "send (PutSecretValueCommand (SecretName (ResourceProperties event)) (secretValue event)) st
        = (Inr u, st')
      \<longrightarrow> handler send event st = (Inr (physicalId event), st')"
    using assms by (simp add: handler_def)
  moreover have "send (PutSecretValueCommand (SecretName (ResourceProperties event)) (secretValue event)) st
        = (Inl ResourceNotFoundException, st')
        \<and> send (CreateSecretCommand (SecretName (ResourceProperties event)) (secretValue event)
                  (secretDescription event)) st' = (Inr u, st'')
      \<longrightarrow> handler send event st = (Inr (physicalId event), st'')"
    using assms by (simp add: handler_def)
  moreover have "send (PutSecretValueCommand (SecretName (ResourceProperties event)) (secretValue event)) st
        = (Inl ResourceNotFoundException, st')
        \<and> send (CreateSecretCommand (SecretName (ResourceProperties event)) (secretValue event)
                  (secretDescription event)) st' = (Inl e, st'')
      \<longrightarrow> handler send event st = (Inl e, st'')"
    using assms by (simp add: handler_def)
  moreover have "send (PutSecretValueCommand (SecretName (ResourceProperties event)) (secretValue event)) st
        = (Inl e, st')
        \<and> e \<noteq> ResourceNotFoundException
      \<longrightarrow> handler send event st = (Inl e, st')"
    using assms by (simp add: handler_def)
  ultimately show ?thesis by (intro conjI)
qed

theorem handler_Create_Update_witness:
  "RequestType \<lparr>RequestType = Create, ResourceProperties = exampleProperties\<rparr> \<noteq> Delete
   \<and> RequestType \<lparr>RequestType = Update, ResourceProperties = exampleProperties\<rparr> \<noteq> Delete
   \<and> handler storeSend \<lparr>RequestType = Create, ResourceProperties = exampleProperties\<rparr>
        \<lparr>secrets = Map.empty, received = []\<rparr>
      = (Inr ''smtp-creds-EmailForwarding/smtp-credentials'',
         \<lparr>secrets = [''EmailForwarding/smtp-credentials'' \<mapsto>
              secretValue \<lparr>RequestType = Create, ResourceProperties = exampleProperties\<rparr>],
          received =
            [PutSecretValueCommand ''EmailForwarding/smtp-credentials''
               (secretValue \<lparr>RequestType = Create, ResourceProperties = exampleProperties\<rparr>),
             CreateSecretCommand ''EmailForwarding/smtp-credentials''
               (secretValue \<lparr>RequestType = Create, ResourceProperties = exampleProperties\<rparr>)
               (secretDescription \<lparr>RequestType = Create, ResourceProperties = exampleProperties\<rparr>)]\<rparr>)
   \<and> handler storeSend \<lparr>RequestType = Update, ResourceProperties = exampleProperties\<rparr>
        \<lparr>secrets = [''EmailForwarding/smtp-credentials'' \<mapsto> ''old''], received = []\<rparr>
      = (Inr ''smtp-creds-EmailForwarding/smtp-credentials'',
         \<lparr>secrets = [''EmailForwarding/smtp-credentials'' \<mapsto>
              secretValue \<lparr>RequestType = Update, ResourceProperties = exampleProperties\<rparr>],
          received =
            [PutSecretValueCommand ''EmailForwarding/smtp-credentials''
               (secretValue \<lparr>RequestType = Update, ResourceProperties = exampleProperties\<rparr>)]\<rparr>)
   \<and> handler (\<lambda>cmd st. (Inl (OtherException ''AccessDeniedException''), st))
        \<lparr>RequestType = Create, ResourceProperties = exampleProperties\<rparr> (0::nat)
      = (Inl (OtherException ''AccessDeniedException''), 0)
   \<and> handler (\<lambda>cmd st. (case cmd of PutSecretValueCommand n v \<Rightarrow> Inl ResourceNotFoundException
                                     | _ \<Rightarrow> Inl (OtherException ''LimitExceededException''), Suc st))
        \<lparr>RequestType = Create, ResourceProperties = exampleProperties\<rparr> (0::nat)
      = (Inl (OtherException ''LimitExceededException''), 2)
   \<and> handler (\<lambda>cmd st. (case cmd of PutSecretValueCommand n v \<Rightarrow> Inl ResourceNotFoundException
                                     | _ \<Rightarrow> Inr (), Suc st))
        \<lparr>RequestType = Update, ResourceProperties = exampleProperties\<rparr> (0::nat)
      = (Inr ''smtp-creds-EmailForwarding/smtp-credentials'', 2)
   \<and> handler (\<lambda>cmd st. (Inr (), Suc st))
        \<lparr>RequestType = Update, ResourceProperties = exampleProperties\<rparr> (0::nat)
      = (Inr ''smtp-creds-EmailForwarding/smtp-credentials'', 1)"
proof -
  let ?c = "\<lparr>RequestType = Create, ResourceProperties = exampleProperties\<rparr>"
  let ?u = "\<lparr>RequestType = Update, ResourceProperties = exampleProperties\<rparr>"
  let ?rnf = "\<lambda>r. (\<lambda>cmd st. (case cmd of PutSecretValueCommand n v \<Rightarrow> Inl ResourceNotFoundException
                                     | _ \<Rightarrow> r, Suc st))"
  have c: "RequestType ?c \<noteq> Delete" and u: "RequestType ?u \<noteq> Delete" by simp_all
  have n: "SecretName exampleProperties = ''EmailForwarding/smtp-credentials''"
    by (simp add: exampleProperties_def)
  have p: "physicalId ?c = ''smtp-creds-EmailForwarding/smtp-credentials''"
    "physicalId ?u = ''smtp-creds-EmailForwarding/smtp-credentials''"
    by (simp_all add: physicalId_def n)
  from handler_Create_Update [OF c, where store = "\<lparr>secrets = Map.empty, received = []\<rparr>",
      THEN conjunct1]
  have 1: "handler storeSend ?c \<lparr>secrets = Map.empty, received = []\<rparr>
      = (Inr ''smtp-creds-EmailForwarding/smtp-credentials'',
         \<lparr>secrets = [''EmailForwarding/smtp-credentials'' \<mapsto> secretValue ?c],
          received =
            [PutSecretValueCommand ''EmailForwarding/smtp-credentials'' (secretValue ?c),
             CreateSecretCommand ''EmailForwarding/smtp-credentials'' (secretValue ?c)
               (secretDescription ?c)]\<rparr>)"
    by (simp add: n p)
  from handler_Create_Update [OF u, where store =
      "\<lparr>secrets = [''EmailForwarding/smtp-credentials'' \<mapsto> ''old''], received = []\<rparr>",
      THEN conjunct1]
  have 2: "handler storeSend ?u
        \<lparr>secrets = [''EmailForwarding/smtp-credentials'' \<mapsto> ''old''], received = []\<rparr>
      = (Inr ''smtp-creds-EmailForwarding/smtp-credentials'',
         \<lparr>secrets = [''EmailForwarding/smtp-credentials'' \<mapsto> secretValue ?u],
          received =
            [PutSecretValueCommand ''EmailForwarding/smtp-credentials'' (secretValue ?u)]\<rparr>)"
    by (simp add: n p)
  from handler_Create_Update [OF c,
      where send = "\<lambda>cmd st. (Inl (OtherException ''AccessDeniedException''), st)"
      and st = "0::nat" and st' = 0 and e = "OtherException ''AccessDeniedException''"]
  have 3: "handler (\<lambda>cmd st. (Inl (OtherException ''AccessDeniedException''), st)) ?c (0::nat)
      = (Inl (OtherException ''AccessDeniedException''), 0)"
    by simp
  from handler_Create_Update [OF c,
      where send = "?rnf (Inl (OtherException ''LimitExceededException''))"
      and st = "0::nat" and st' = "Suc 0" and st'' = "Suc (Suc 0)"
      and e = "OtherException ''LimitExceededException''"]
  have 4: "handler (?rnf (Inl (OtherException ''LimitExceededException''))) ?c (0::nat)
      = (Inl (OtherException ''LimitExceededException''), 2)"
    by (simp add: numeral_2_eq_2)
  from handler_Create_Update [OF u, where send = "?rnf (Inr ())"
      and st = "0::nat" and st' = "Suc 0" and st'' = "Suc (Suc 0)" and u = "()"]
  have 5: "handler (?rnf (Inr ())) ?u (0::nat)
      = (Inr ''smtp-creds-EmailForwarding/smtp-credentials'', 2)"
    by (simp add: p numeral_2_eq_2)
  from handler_Create_Update [OF u, where send = "\<lambda>cmd st. (Inr (), Suc st)"
      and st = "0::nat" and st' = "Suc 0" and u = "()"]
  have 6: "handler (\<lambda>cmd st. (Inr (), Suc st)) ?u (0::nat)
      = (Inr ''smtp-creds-EmailForwarding/smtp-credentials'', 1)"
    by (simp add: p)
  from c u 1 2 3 4 5 6 show ?thesis by (intro conjI)
qed

end
